theory Spec2Isabelle
  imports Complex_Main "HOL-Library.Word"
begin

unbundle bit_operations_syntax

section \<open>Hashline tools: line fingerprints, reference resolution, edit engine\<close>

text \<open>
  A shallow embedding of the hashline extension (\<^verbatim>\<open>src/unnamed/part_000\<close>).
  Text is a \<^typ>\<open>string\<close> of bytes: the UTF-8 encoding of the JavaScript string, which is
  what \<^verbatim>\<open>createHash("md5").update(content)\<close> digests and what \<^verbatim>\<open>stat\<close> counts.
  Line numbers are \<^typ>\<open>int\<close>: the code subtracts from them before clamping.
  Every \<^verbatim>\<open>throw\<close> of the source is a value of the type \<open>error\<close>, carried in the
  left summand of the result.
\<close>

subsection \<open>The digest: MD5 in hexadecimal\<close>

text \<open>
  \<^verbatim>\<open>createHash("md5").update(content).digest("hex")\<close> is a call into the Node.js
  library. It is modelled by the algorithm of RFC 1321 on 32-bit words, and by the lowercase
  hexadecimal rendering of the sixteen digest bytes.
\<close>

type_synonym u32 = "32 word"

definition md5_K :: "u32 list" where
  "md5_K = [
    0xd76aa478, 0xe8c7b756, 0x242070db, 0xc1bdceee, 0xf57c0faf, 0x4787c62a, 0xa8304613, 0xfd469501,
    0x698098d8, 0x8b44f7af, 0xffff5bb1, 0x895cd7be, 0x6b901122, 0xfd987193, 0xa679438e, 0x49b40821,
    0xf61e2562, 0xc040b340, 0x265e5a51, 0xe9b6c7aa, 0xd62f105d, 0x02441453, 0xd8a1e681, 0xe7d3fbc8,
    0x21e1cde6, 0xc33707d6, 0xf4d50d87, 0x455a14ed, 0xa9e3e905, 0xfcefa3f8, 0x676f02d9, 0x8d2a4c8a,
    0xfffa3942, 0x8771f681, 0x6d9d6122, 0xfde5380c, 0xa4beea44, 0x4bdecfa9, 0xf6bb4b60, 0xbebfbc70,
    0x289b7ec6, 0xeaa127fa, 0xd4ef3085, 0x04881d05, 0xd9d4d039, 0xe6db99e5, 0x1fa27cf8, 0xc4ac5665,
    0xf4292244, 0x432aff97, 0xab9423a7, 0xfc93a039, 0x655b59c3, 0x8f0ccc92, 0xffeff47d, 0x85845dd1,
    0x6fa87e4f, 0xfe2ce6e0, 0xa3014314, 0x4e0811a1, 0xf7537e82, 0xbd3af235, 0x2ad7d2bb, 0xeb86d391]"

definition md5_s :: "nat list" where
  "md5_s = [
    7, 12, 17, 22, 7, 12, 17, 22, 7, 12, 17, 22, 7, 12, 17, 22,
    5, 9, 14, 20, 5, 9, 14, 20, 5, 9, 14, 20, 5, 9, 14, 20,
    4, 11, 16, 23, 4, 11, 16, 23, 4, 11, 16, 23, 4, 11, 16, 23,
    6, 10, 15, 21, 6, 10, 15, 21, 6, 10, 15, 21, 6, 10, 15, 21]"

definition rotl32 :: "nat \<Rightarrow> u32 \<Rightarrow> u32" where
  "rotl32 n x = push_bit n x OR drop_bit (32 - n) x"

definition le64 :: "nat \<Rightarrow> nat list" where
  "le64 n = map (\<lambda>k. (n div 256 ^ k) mod 256) [0..<8]"

definition md5_pad :: "nat list \<Rightarrow> nat list" where
  "md5_pad bs =
     bs @ [128] @ replicate ((119 - length bs mod 64) mod 64) 0 @ le64 (8 * length bs)"

fun le_words :: "nat list \<Rightarrow> u32 list" where
  "le_words (b0 # b1 # b2 # b3 # bs) =
     word_of_nat (b0 + 256 * b1 + 65536 * b2 + 16777216 * b3) # le_words bs"
| "le_words _ = []"

type_synonym md5_state = "u32 \<times> u32 \<times> u32 \<times> u32"

definition md5_step :: "u32 list \<Rightarrow> md5_state \<Rightarrow> nat \<Rightarrow> md5_state" where
  "md5_step M st i =
     (case st of (a, b, c, d) \<Rightarrow>
        let fg = (if i < 16 then ((b AND c) OR (NOT b AND d), i)
                  else if i < 32 then ((d AND b) OR (NOT d AND c), (5 * i + 1) mod 16)
                  else if i < 48 then (b XOR c XOR d, (3 * i + 5) mod 16)
                  else (c XOR (b OR NOT d), (7 * i) mod 16));
            f = fst fg + a + md5_K ! i + M ! snd fg
        in (d, b + rotl32 (md5_s ! i) f, b, c))"

definition md5_block :: "md5_state \<Rightarrow> u32 list \<Rightarrow> md5_state" where
  "md5_block st M =
     (case (st, foldl (md5_step M) st [0..<64]) of
        ((a0, b0, c0, d0), (a, b, c, d)) \<Rightarrow> (a0 + a, b0 + b, c0 + c, d0 + d))"

fun chunks16 :: "u32 list \<Rightarrow> u32 list list" where
  "chunks16 [] = []"
| "chunks16 ws = take 16 ws # chunks16 (drop 16 ws)"

definition hex_digit :: "nat \<Rightarrow> char" where
  "hex_digit n = ''0123456789abcdef'' ! (n mod 16)"

definition hex_byte :: "nat \<Rightarrow> string" where
  "hex_byte b = [hex_digit (b div 16), hex_digit b]"

definition word_bytes :: "u32 \<Rightarrow> nat list" where
  "word_bytes w = map (\<lambda>k. (unat w div 256 ^ k) mod 256) [0..<4]"

definition md5_digest :: "string \<Rightarrow> nat list" where
  "md5_digest s =
     (case foldl md5_block (0x67452301, 0xefcdab89, 0x98badcfe, 0x10325476)
             (chunks16 (le_words (md5_pad (map of_char s)))) of
        (a, b, c, d) \<Rightarrow> concat (map word_bytes [a, b, c, d]))"

definition md5_hex :: "string \<Rightarrow> string" where
  "md5_hex s = concat (map hex_byte (md5_digest s))"

subsection \<open>Line fingerprints\<close>

text \<open>
  \<^verbatim>\<open>generateLineHash(content, _lineNumber)\<close>: the first six characters of the hexadecimal MD5
  digest. The second parameter is accepted and ignored, as in the source.
\<close>

definition generateLineHash :: "string \<Rightarrow> int \<Rightarrow> string" where
  "generateLineHash content lineNumber_unused = take 6 (md5_hex content)"

definition isHexLower :: "char \<Rightarrow> bool" where
  "isHexLower c = (c \<in> set ''0123456789abcdef'')"

subsection \<open>Errors\<close>

datatype error =
    OperationAborted
  | FileNotFound
  | FileTooLarge nat
  | BinaryFile string
  | InvalidLineHashFormat
  | LineOutOfRange int nat
  | StartOutOfRange
  | EndOutOfRange
  | HashMismatch int
  | AmbiguousNearby int string "int list"
  | AmbiguousGlobal int string "int list"
  | HashNotFound int string
  | OffsetBeyondEnd "rat option" nat

subsection \<open>References and their resolution\<close>

record line_ref =
  lineNumber :: int
  hash :: string

text \<open>
  The two search loops of \<^verbatim>\<open>resolveLineHash\<close> collect, in increasing order, the line
  numbers \<open>i\<close> of an inclusive range with \<^verbatim>\<open>hashIndex.get(i) === hash\<close>.
\<close>

definition candidates :: "(int \<rightharpoonup> string) \<Rightarrow> string \<Rightarrow> int \<Rightarrow> int \<Rightarrow> int list" where
  "candidates hashIndex h lo hi = filter (\<lambda>i. hashIndex i = Some h) [lo..hi]"

definition resolveLineHash ::
  "line_ref \<Rightarrow> string list \<Rightarrow> (int \<rightharpoonup> string) \<Rightarrow> int set \<Rightarrow> error + int" where
  "resolveLineHash ref lines hashIndex modifiedLines =
     (if hashIndex (lineNumber ref) = Some (hash ref) then Inr (lineNumber ref)
      else if lineNumber ref \<in> modifiedLines then Inr (lineNumber ref)
      else
        let nearbyRange = 10;
            nearbyStart = max 1 (lineNumber ref - nearbyRange);
            nearbyEnd = min (int (length lines)) (lineNumber ref + nearbyRange);
            nearbyCandidates = candidates hashIndex (hash ref) nearbyStart nearbyEnd
        in if length nearbyCandidates = 1 then Inr (hd nearbyCandidates)
           else if length nearbyCandidates > 1
             then Inl (AmbiguousNearby (lineNumber ref) (hash ref) nearbyCandidates)
           else
             let globalCandidates = candidates hashIndex (hash ref) 1 (int (length lines))
             in if length globalCandidates = 1 then Inr (hd globalCandidates)
                else if length globalCandidates > 1
                  then Inl (AmbiguousGlobal (lineNumber ref) (hash ref) globalCandidates)
                else Inl (HashNotFound (lineNumber ref) (hash ref)))"

text \<open>
  \<^verbatim>\<open>parseLineHash\<close> matches \<^verbatim>\<open>/^(\d+):([a-f0-9]{6})$/i\<close>: one or more ASCII digits, a
  colon, exactly six hexadecimal digits of either case, and nothing else. The captured hash
  keeps the case it was written in. \<^verbatim>\<open>parseInt\<close> is taken exactly; a JavaScript number
  agrees with it below \<open>2 ^ 53\<close>.
\<close>

definition isDigit :: "char \<Rightarrow> bool" where
  "isDigit c = (c \<in> set ''0123456789'')"

definition isHexAnyCase :: "char \<Rightarrow> bool" where
  "isHexAnyCase c = (c \<in> set ''0123456789abcdefABCDEF'')"

definition parseInt10 :: "string \<Rightarrow> nat" where
  "parseInt10 ds = foldl (\<lambda>n c. 10 * n + (of_char c - 48)) 0 ds"

definition parseLineHash :: "string \<Rightarrow> line_ref option" where
  "parseLineHash ref =
     (let ds = takeWhile isDigit ref; rest = dropWhile isDigit ref
      in case rest of
           [] \<Rightarrow> None
         | c # h \<Rightarrow>
             if ds \<noteq> [] \<and> c = CHR '':'' \<and> length h = 6 \<and> list_all isHexAnyCase h
             then Some \<lparr>lineNumber = int (parseInt10 ds), hash = h\<rparr>
             else None)"

subsection \<open>JavaScript array primitives\<close>

text \<open>
  \<^verbatim>\<open>Array.prototype.slice(start, end)\<close> and \<^verbatim>\<open>splice(start, deleteCount)\<close> on integer
  arguments: a negative index counts from the end, and every index is clamped to the array.
\<close>

definition js_index :: "nat \<Rightarrow> int \<Rightarrow> nat" where
  "js_index len i = (if i < 0 then nat (max (int len + i) 0) else nat (min i (int len)))"

definition js_slice :: "'a list \<Rightarrow> int \<Rightarrow> int \<Rightarrow> 'a list" where
  "js_slice xs start stop =
     (let k = js_index (length xs) start; final = js_index (length xs) stop
      in take (final - k) (drop k xs))"

definition js_slice_from :: "'a list \<Rightarrow> int \<Rightarrow> 'a list" where
  "js_slice_from xs start = drop (js_index (length xs) start) xs"

definition js_splice :: "'a list \<Rightarrow> int \<Rightarrow> int \<Rightarrow> 'a list" where
  "js_splice xs start deleteCount =
     (let k = js_index (length xs) start;
          dc = nat (min (max deleteCount 0) (int (length xs) - int k))
      in take k xs @ drop (k + dc) xs)"

text \<open>\<^verbatim>\<open>buffer.split("\\n")\<close> and \<^verbatim>\<open>lines.join("\\n")\<close>.\<close>

fun split_lines :: "string \<Rightarrow> string list" where
  "split_lines [] = [[]]"
| "split_lines (c # cs) =
     (if c = CHR 0x0A then [] # split_lines cs
      else (case split_lines cs of [] \<Rightarrow> [[c]] | l # ls \<Rightarrow> (c # l) # ls))"

fun join_lines :: "string list \<Rightarrow> string" where
  "join_lines [] = []"
| "join_lines [l] = l"
| "join_lines (l # ls) = l @ CHR 0x0A # join_lines ls"

subsection \<open>The edit engine\<close>

datatype edit =
    replace_line string string
  | replace_range string string "string list"
  | insert_after string "string list"
  | delete_line string
  | delete_range string string

text \<open>
  The mutable locals of \<^verbatim>\<open>execute\<close>. \<^verbatim>\<open>minAffectedLine\<close> starts at \<^verbatim>\<open>Infinity\<close> and
  \<^verbatim>\<open>maxAffectedLine\<close> at \<^verbatim>\<open>-Infinity\<close>; both are \<open>None\<close> until the first edit.
\<close>

record edit_state =
  lines :: "string list"
  hashIndex :: "int \<rightharpoonup> string"
  modifiedLines :: "int set"
  minAffectedLine :: "int option"
  maxAffectedLine :: "int option"

definition track_min :: "int option \<Rightarrow> int \<Rightarrow> int option" where
  "track_min m x = Some (case m of None \<Rightarrow> x | Some y \<Rightarrow> min y x)"

definition track_max :: "int option \<Rightarrow> int \<Rightarrow> int option" where
  "track_max m x = Some (case m of None \<Rightarrow> x | Some y \<Rightarrow> max y x)"

text \<open>
  The rebuild loop \<^verbatim>\<open>for (i = 0; i < lines.length; i++) hashIndex.set(i + 1, ...)\<close>. It writes
  into the existing map, which the source never clears: an entry beyond the new line count
  survives a rebuild.
\<close>

definition rebuildIndex :: "(int \<rightharpoonup> string) \<Rightarrow> string list \<Rightarrow> (int \<rightharpoonup> string)" where
  "rebuildIndex idx ls =
     foldl (\<lambda>m i. m(int i + 1 \<mapsto> generateLineHash (ls ! i) (int i + 1))) idx [0..<length ls]"

text \<open>The verification loop of the two range operations, over the resolved range.\<close>

fun verifyRange :: "string list \<Rightarrow> (int \<rightharpoonup> string) \<Rightarrow> int set \<Rightarrow> int list \<Rightarrow> error option" where
  "verifyRange ls idx ms [] = None"
| "verifyRange ls idx ms (i # rest) =
     (if i \<in> ms then verifyRange ls idx ms rest
      else if Some (generateLineHash (ls ! nat (i - 1)) i) \<noteq> idx i then Some (HashMismatch i)
      else verifyRange ls idx ms rest)"

definition rebuilt :: "edit_state \<Rightarrow> string list \<Rightarrow> int \<Rightarrow> int \<Rightarrow> edit_state" where
  "rebuilt st ls lo hi =
     st\<lparr>lines := ls,
        minAffectedLine := track_min (minAffectedLine st) lo,
        maxAffectedLine := track_max (maxAffectedLine st) hi,
        hashIndex := rebuildIndex (hashIndex st) ls,
        modifiedLines := {}\<rparr>"

fun applyEdit :: "edit_state \<Rightarrow> edit \<Rightarrow> error + edit_state" where
  "applyEdit st (replace_line lineHash newText) =
     (case parseLineHash lineHash of
        None \<Rightarrow> Inl InvalidLineHashFormat
      | Some ref \<Rightarrow>
          (case resolveLineHash ref (lines st) (hashIndex st) (modifiedLines st) of
             Inl e \<Rightarrow> Inl e
           | Inr n \<Rightarrow>
               if n < 1 \<or> n > int (length (lines st))
               then Inl (LineOutOfRange n (length (lines st)))
               else Inr (st\<lparr>lines := (lines st)[nat (n - 1) := newText],
                            modifiedLines := insert n (modifiedLines st),
                            minAffectedLine := track_min (minAffectedLine st) n,
                            maxAffectedLine := track_max (maxAffectedLine st) n,
                            hashIndex := (hashIndex st)(n \<mapsto> generateLineHash newText n)\<rparr>)))"
| "applyEdit st (replace_range startHash endHash newLines) =
     (case (parseLineHash startHash, parseLineHash endHash) of
        (Some startRef, Some endRef) \<Rightarrow>
          (case resolveLineHash startRef (lines st) (hashIndex st) (modifiedLines st) of
             Inl e \<Rightarrow> Inl e
           | Inr s \<Rightarrow>
               (case resolveLineHash endRef (lines st) (hashIndex st) (modifiedLines st) of
                  Inl e \<Rightarrow> Inl e
                | Inr t \<Rightarrow>
                    if s < 1 \<or> s > int (length (lines st)) then Inl StartOutOfRange
                    else if t < s \<or> t > int (length (lines st)) then Inl EndOutOfRange
                    else
                      (case verifyRange (lines st) (hashIndex st) (modifiedLines st) [s..t] of
                         Some e \<Rightarrow> Inl e
                       | None \<Rightarrow>
                           Inr (rebuilt st
                                  (js_slice (lines st) 0 (s - 1) @ newLines @ js_slice_from (lines st) t)
                                  s (s + int (length newLines))))))
      | _ \<Rightarrow> Inl InvalidLineHashFormat)"
| "applyEdit st (insert_after lineHash newLines) =
     (case parseLineHash lineHash of
        None \<Rightarrow> Inl InvalidLineHashFormat
      | Some ref \<Rightarrow>
          (case resolveLineHash ref (lines st) (hashIndex st) (modifiedLines st) of
             Inl e \<Rightarrow> Inl e
           | Inr n \<Rightarrow>
               if n < 1 \<or> n > int (length (lines st))
               then Inl (LineOutOfRange n (length (lines st)))
               else Inr (rebuilt st
                           (js_slice (lines st) 0 n @ newLines @ js_slice_from (lines st) n)
                           (n + 1) (n + int (length newLines)))))"
| "applyEdit st (delete_line lineHash) =
     (case parseLineHash lineHash of
        None \<Rightarrow> Inl InvalidLineHashFormat
      | Some ref \<Rightarrow>
          (case resolveLineHash ref (lines st) (hashIndex st) (modifiedLines st) of
             Inl e \<Rightarrow> Inl e
           | Inr n \<Rightarrow>
               if n < 1 \<or> n > int (length (lines st))
               then Inl (LineOutOfRange n (length (lines st)))
               else Inr (rebuilt st (js_splice (lines st) (n - 1) 1) n (n + 5))))"
| "applyEdit st (delete_range startHash endHash) =
     (case (parseLineHash startHash, parseLineHash endHash) of
        (Some startRef, Some endRef) \<Rightarrow>
          (case resolveLineHash startRef (lines st) (hashIndex st) (modifiedLines st) of
             Inl e \<Rightarrow> Inl e
           | Inr s \<Rightarrow>
               (case resolveLineHash endRef (lines st) (hashIndex st) (modifiedLines st) of
                  Inl e \<Rightarrow> Inl e
                | Inr t \<Rightarrow>
                    if s < 1 \<or> s > int (length (lines st)) then Inl StartOutOfRange
                    else if t < s \<or> t > int (length (lines st)) then Inl EndOutOfRange
                    else
                      (case verifyRange (lines st) (hashIndex st) (modifiedLines st) [s..t] of
                         Some e \<Rightarrow> Inl e
                       | None \<Rightarrow>
                           Inr (rebuilt st (js_splice (lines st) (s - 1) (t - s + 1)) s (s + 5)))))
      | _ \<Rightarrow> Inl InvalidLineHashFormat)"

text \<open>
  The loop over the edits. \<open>aborted k\<close> is what \<^verbatim>\<open>signal?.aborted\<close> reads at the \<open>k\<close>-th
  check of the call: check \<open>0\<close> is the one at entry, check \<open>k\<close> the one before the \<open>k\<close>-th edit.
\<close>

fun applyEdits :: "(nat \<Rightarrow> bool) \<Rightarrow> nat \<Rightarrow> edit_state \<Rightarrow> edit list \<Rightarrow> error + edit_state" where
  "applyEdits aborted k st [] = Inr st"
| "applyEdits aborted k st (e # es) =
     (if aborted k then Inl OperationAborted
      else case applyEdit st e of
             Inl err \<Rightarrow> Inl err
           | Inr st' \<Rightarrow> applyEdits aborted (Suc k) st' es)"

definition initialState :: "string \<Rightarrow> edit_state" where
  "initialState buffer =
     \<lparr>lines = split_lines buffer,
      hashIndex = rebuildIndex Map.empty (split_lines buffer),
      modifiedLines = {},
      minAffectedLine = None,
      maxAffectedLine = None\<rparr>"

subsection \<open>Files\<close>

text \<open>
  The file system maps an absolute path to the text of the file. \<^verbatim>\<open>path.extname\<close> is a
  library function and a parameter of the model; \<^verbatim>\<open>toLowerCase\<close> is given on ASCII letters,
  the only ones that can reach an entry of \<^verbatim>\<open>BINARY_EXTENSIONS\<close>.
\<close>

type_synonym file_system = "string \<rightharpoonup> string"

definition MAX_FILE_SIZE :: nat where
  "MAX_FILE_SIZE = 50 * 1024 * 1024"

definition BINARY_EXTENSIONS :: "string list" where
  "BINARY_EXTENSIONS =
     [''.jpg'', ''.jpeg'', ''.png'', ''.gif'', ''.bmp'', ''.ico'', ''.svg'', ''.webp'',
      ''.pdf'', ''.zip'', ''.tar'', ''.gz'', ''.rar'', ''.7z'',
      ''.exe'', ''.dll'', ''.so'', ''.dylib'', ''.bin'',
      ''.mp3'', ''.mp4'', ''.wav'', ''.ogg'', ''.flac'', ''.avi'', ''.mov'',
      ''.doc'', ''.docx'', ''.xls'', ''.xlsx'', ''.ppt'', ''.pptx'']"

definition toLowerCase :: "string \<Rightarrow> string" where
  "toLowerCase s =
     map (\<lambda>c. if c \<in> set ''ABCDEFGHIJKLMNOPQRSTUVWXYZ'' then char_of (of_char c + (32::nat)) else c) s"

definition isLikelyBinary :: "(string \<Rightarrow> string) \<Rightarrow> string \<Rightarrow> bool" where
  "isLikelyBinary extname filePath = (toLowerCase (extname filePath) \<in> set BINARY_EXTENSIONS)"

definition validateFileForReading ::
  "(string \<Rightarrow> string) \<Rightarrow> file_system \<Rightarrow> string \<Rightarrow> error option" where
  "validateFileForReading extname fs filePath =
     (case fs filePath of
        None \<Rightarrow> Some FileNotFound
      | Some content \<Rightarrow>
          if length content > MAX_FILE_SIZE then Some (FileTooLarge (length content))
          else if isLikelyBinary extname filePath then Some (BinaryFile (extname filePath))
          else None)"

subsection \<open>The edit tool\<close>

text \<open>
  \<^verbatim>\<open>edit_hashline.execute\<close> up to the write: the result is the final state of the engine, or
  the error thrown, together with the file system the call leaves behind. The only
  \<^verbatim>\<open>writeFile\<close> of the call is the update of the path in the last branch.
\<close>

definition edit_execute ::
  "(string \<Rightarrow> string) \<Rightarrow> (nat \<Rightarrow> bool) \<Rightarrow> file_system \<Rightarrow> string \<Rightarrow> edit list
     \<Rightarrow> (error + edit_state) \<times> file_system" where
  "edit_execute extname aborted fs absolutePath edits =
     (if aborted 0 then (Inl OperationAborted, fs)
      else case validateFileForReading extname fs absolutePath of
             Some err \<Rightarrow> (Inl err, fs)
           | None \<Rightarrow>
               (case fs absolutePath of
                  None \<Rightarrow> (Inl FileNotFound, fs)
                | Some buffer \<Rightarrow>
                    (case applyEdits aborted 1 (initialState buffer) edits of
                       Inl err \<Rightarrow> (Inl err, fs)
                     | Inr st \<Rightarrow> (Inr st, fs(absolutePath \<mapsto> join_lines (lines st))))))"

subsection \<open>The read tool\<close>










subsection \<open>The index invariant\<close>

text \<open>
  The hash index covers the buffer: every line number from 1 to the line count is mapped to
  the fingerprint of the line that stands there.
\<close>

definition index_covers :: "edit_state \<Rightarrow> bool" where
  "index_covers st =
     list_all (\<lambda>i. hashIndex st i = Some (generateLineHash (lines st ! nat (i - 1)) i))
       [1..int (length (lines st))]"

section \<open>Properties of the fingerprint\<close>

lemma length_word_bytes: "length (word_bytes w) = 4"
  by (simp add: word_bytes_def)

lemma length_md5_digest: "length (md5_digest s) = 16"
  by (simp add: md5_digest_def length_word_bytes split: prod.splits)

lemma length_hex_bytes: "length (concat (map hex_byte bs)) = 2 * length bs"
  by (induction bs) (simp_all add: hex_byte_def)

lemma length_md5_hex: "length (md5_hex s) = 32"
  by (simp add: md5_hex_def length_hex_bytes length_md5_digest)

lemma hex_digit_lower: "isHexLower (hex_digit n)"
proof -
  have "n mod 16 < length ''0123456789abcdef''" by simp
  then have "''0123456789abcdef'' ! (n mod 16) \<in> set ''0123456789abcdef''"
    by (rule nth_mem)
  then show ?thesis by (simp only: hex_digit_def isHexLower_def)
qed

lemma md5_hex_lower: "list_all isHexLower (md5_hex s)"
  by (simp add: md5_hex_def list_all_iff hex_byte_def hex_digit_lower)

lemma generateLineHash_lower: "list_all isHexLower (generateLineHash s n)"
  using md5_hex_lower [of s]
  by (auto simp: generateLineHash_def list_all_iff dest: in_set_takeD)

lemma length_generateLineHash: "length (generateLineHash s n) = 6"
  by (simp add: generateLineHash_def length_md5_hex)

text \<open>
  Claim C6. For every line text \<open>s\<close> the fingerprint is a string of six lowercase
  hexadecimal characters, and it is the same at every line number: two lines with the same
  text share it wherever they stand.
\<close>

theorem generateLineHash_content_only:
  "length (generateLineHash s n) = 6
   \<and> list_all isHexLower (generateLineHash s n)
   \<and> generateLineHash s n = generateLineHash s m"
  by (simp add: length_generateLineHash generateLineHash_lower) (simp add: generateLineHash_def)

section \<open>Resolution of a reference\<close>

lemma set_candidates:
  "set (candidates idx h lo hi) = {i. lo \<le> i \<and> i \<le> hi \<and> idx i = Some h}"
  by (auto simp: candidates_def)

lemma distinct_candidates: "distinct (candidates idx h lo hi)"
  by (simp add: candidates_def)

lemma sorted_candidates: "sorted (candidates idx h lo hi)"
  by (simp add: candidates_def sorted_wrt_filter)

lemma candidates_sorted_list:
  "candidates idx h lo hi = sorted_list_of_set {i. lo \<le> i \<and> i \<le> hi \<and> idx i = Some h}"
proof -
  have "sorted_list_of_set (set (candidates idx h lo hi)) = candidates idx h lo hi"
    by (simp add: sorted_list_of_set.idem_if_sorted_distinct sorted_candidates distinct_candidates)
  then show ?thesis by (simp only: set_candidates)
qed

lemma candidates_single:
  assumes "{i. lo \<le> i \<and> i \<le> hi \<and> idx i = Some h} = {c}"
  shows "candidates idx h lo hi = [c]"
proof -
  have "candidates idx h lo hi = sorted_list_of_set {c}"
    by (simp only: candidates_sorted_list assms)
  then show ?thesis by simp
qed

lemma candidates_empty:
  assumes "{i. lo \<le> i \<and> i \<le> hi \<and> idx i = Some h} = {}"
  shows "candidates idx h lo hi = []"
proof -
  have "set (candidates idx h lo hi) = {}"
    by (simp only: set_candidates assms)
  then show ?thesis by simp
qed

lemma candidates_many:
  assumes "lo \<le> i" "i \<le> hi" "idx i = Some h" "lo \<le> j" "j \<le> hi" "idx j = Some h" "i \<noteq> j"
  shows "length (candidates idx h lo hi) > 1"
proof -
  have "{i, j} \<subseteq> set (candidates idx h lo hi)"
    using assms by (simp add: set_candidates)
  then have "card {i, j} \<le> card (set (candidates idx h lo hi))"
    by (intro card_mono) auto
  also have "\<dots> = length (candidates idx h lo hi)"
    by (simp add: distinct_card distinct_candidates)
  finally show ?thesis using \<open>i \<noteq> j\<close> by simp
qed

lemma finite_hits: "finite {i::int. lo \<le> i \<and> i \<le> hi \<and> P i}"
  by (rule finite_subset [of _ "{lo..hi}"]) auto

lemma length_candidates:
  "length (candidates idx h lo hi) = card {i. lo \<le> i \<and> i \<le> hi \<and> idx i = Some h}"
  by (simp only: set_candidates [symmetric] distinct_card [OF distinct_candidates])

text \<open>
  Claim C1. Resolution follows the tiers in order. If the index entry at the recorded line
  number equals the recorded hash, that line number is returned. Otherwise, if the line number
  is in the modified-lines set, it is returned. Otherwise the window of ten lines on either
  side, clamped to the buffer, is searched for index entries equal to the hash, and a unique
  hit \<open>c\<close> is returned. Otherwise, when the window has no unique hit, the whole buffer is
  searched and a unique hit \<open>g\<close> is returned; with no hit in the whole buffer the result is
  the not-found error.
\<close>

theorem resolveLineHash_tiers:
  fixes ref :: line_ref
  shows
  "(idx (lineNumber ref) = Some (hash ref)
      \<longrightarrow> resolveLineHash ref ls idx ms = Inr (lineNumber ref))
   \<and> (idx (lineNumber ref) \<noteq> Some (hash ref) \<and> lineNumber ref \<in> ms
      \<longrightarrow> resolveLineHash ref ls idx ms = Inr (lineNumber ref))
   \<and> (idx (lineNumber ref) \<noteq> Some (hash ref) \<and> lineNumber ref \<notin> ms
       \<and> {i. max 1 (lineNumber ref - 10) \<le> i \<and> i \<le> min (int (length ls)) (lineNumber ref + 10)
              \<and> idx i = Some (hash ref)} = {c}
      \<longrightarrow> resolveLineHash ref ls idx ms = Inr c)
   \<and> (idx (lineNumber ref) \<noteq> Some (hash ref) \<and> lineNumber ref \<notin> ms
       \<and> (\<nexists>c'. {i. max 1 (lineNumber ref - 10) \<le> i \<and> i \<le> min (int (length ls)) (lineNumber ref + 10)
              \<and> idx i = Some (hash ref)} = {c'})
       \<and> {i. 1 \<le> i \<and> i \<le> int (length ls) \<and> idx i = Some (hash ref)} = {g}
      \<longrightarrow> resolveLineHash ref ls idx ms = Inr g)
   \<and> (idx (lineNumber ref) \<noteq> Some (hash ref) \<and> lineNumber ref \<notin> ms
       \<and> {i. 1 \<le> i \<and> i \<le> int (length ls) \<and> idx i = Some (hash ref)} = {}
      \<longrightarrow> resolveLineHash ref ls idx ms
            = Inl (HashNotFound (lineNumber ref) (hash ref)))"
  (is "?A \<and> ?B \<and> ?C \<and> ?D \<and> ?E")
proof -
  let ?lo = "max 1 (lineNumber ref - 10)"
  let ?hi = "min (int (length ls)) (lineNumber ref + 10)"
  let ?near = "{i. ?lo \<le> i \<and> i \<le> ?hi \<and> idx i = Some (hash ref)}"
  let ?glob = "{i. 1 \<le> i \<and> i \<le> int (length ls) \<and> idx i = Some (hash ref)}"
  have sub: "?near \<subseteq> ?glob"
  proof
    fix x assume "x \<in> ?near"
    then have "?lo \<le> x" "x \<le> ?hi" "idx x = Some (hash ref)" by simp_all
    then have "1 \<le> x" "x \<le> int (length ls)" by linarith+
    with \<open>idx x = Some (hash ref)\<close> show "x \<in> ?glob" by simp
  qed
  have A: ?A by (simp add: resolveLineHash_def)
  have B: ?B by (simp add: resolveLineHash_def)
  have C: ?C
  proof (intro impI, elim conjE)
    assume ne: "idx (lineNumber ref) \<noteq> Some (hash ref)" and nm: "lineNumber ref \<notin> ms"
      and n: "?near = {c}"
    from n have "candidates idx (hash ref) ?lo ?hi = [c]" by (rule candidates_single)
    then show "resolveLineHash ref ls idx ms = Inr c"
      using ne nm by (simp add: resolveLineHash_def Let_def)
  qed
  have D: ?D
  proof (intro impI, elim conjE)
    assume ne: "idx (lineNumber ref) \<noteq> Some (hash ref)" and nm: "lineNumber ref \<notin> ms"
      and nn: "\<nexists>c'. ?near = {c'}" and g: "?glob = {g}"
    from sub g have "?near \<subseteq> {g}" by (simp only:)
    then have "?near = {} \<or> ?near = {g}" by (rule subset_singletonD)
    moreover from nn have "?near \<noteq> {g}" by (rule contrapos_nn) (rule exI)
    ultimately have "?near = {}" by (elim disjE) (simp_all only: simp_thms)
    then have n0: "candidates idx (hash ref) ?lo ?hi = []" by (rule candidates_empty)
    from g have g1: "candidates idx (hash ref) 1 (int (length ls)) = [g]"
      by (rule candidates_single)
    show "resolveLineHash ref ls idx ms = Inr g"
      using ne nm n0 g1 by (simp add: resolveLineHash_def Let_def)
  qed
  have E: ?E
  proof (intro impI, elim conjE)
    assume ne: "idx (lineNumber ref) \<noteq> Some (hash ref)" and nm: "lineNumber ref \<notin> ms"
      and g: "?glob = {}"
    from sub g have "?near \<subseteq> {}" by (simp only:)
    then have "?near = {}" by (simp only: subset_empty)
    then have n0: "candidates idx (hash ref) ?lo ?hi = []" by (rule candidates_empty)
    from g have g0: "candidates idx (hash ref) 1 (int (length ls)) = []"
      by (rule candidates_empty)
    show "resolveLineHash ref ls idx ms = Inl (HashNotFound (lineNumber ref) (hash ref))"
      using ne nm n0 g0 by (simp add: resolveLineHash_def Let_def)
  qed
  from A B C D E show ?thesis by (intro conjI)
qed

theorem resolveLineHash_tiers_witness:
  "resolveLineHash \<lparr>lineNumber = 1, hash = ''aaaaaa''\<rparr> [''x'', ''y'', ''z'']
      [1 \<mapsto> ''aaaaaa'', 2 \<mapsto> ''bbbbbb'', 3 \<mapsto> ''cccccc''] {} = Inr 1
   \<and> resolveLineHash \<lparr>lineNumber = 2, hash = ''ffffff''\<rparr> [''x'', ''y'', ''z'']
      [1 \<mapsto> ''aaaaaa'', 2 \<mapsto> ''bbbbbb'', 3 \<mapsto> ''cccccc''] {2} = Inr 2
   \<and> resolveLineHash \<lparr>lineNumber = 3, hash = ''bbbbbb''\<rparr> [''x'', ''y'', ''z'']
      [1 \<mapsto> ''aaaaaa'', 2 \<mapsto> ''bbbbbb'', 3 \<mapsto> ''cccccc''] {} = Inr 2
   \<and> resolveLineHash \<lparr>lineNumber = 20, hash = ''bbbbbb''\<rparr> [''x'', ''y'', ''z'']
      [1 \<mapsto> ''aaaaaa'', 2 \<mapsto> ''bbbbbb'', 3 \<mapsto> ''cccccc''] {} = Inr 2
   \<and> resolveLineHash \<lparr>lineNumber = 1, hash = ''ffffff''\<rparr> [''x'', ''y'', ''z'']
      [1 \<mapsto> ''aaaaaa'', 2 \<mapsto> ''bbbbbb'', 3 \<mapsto> ''cccccc''] {}
        = Inl (HashNotFound 1 ''ffffff'')"
proof -
  let ?idx = "[1 \<mapsto> ''aaaaaa'', 2 \<mapsto> ''bbbbbb'', 3 \<mapsto> ''cccccc''] :: int \<rightharpoonup> string"
  let ?ls = "[''x'', ''y'', ''z'']"
  have near3: "{i. max 1 (3 - 10) \<le> i \<and> i \<le> min (int (length ?ls)) (3 + 10)
                  \<and> ?idx i = Some ''bbbbbb''} = {2}"
    by (auto split: if_splits)
  have near20: "\<nexists>c'. {i. max 1 (20 - 10) \<le> i \<and> i \<le> min (int (length ?ls)) (20 + 10)
                  \<and> ?idx i = Some ''bbbbbb''} = {c'}"
    by auto
  have glob20: "{i. 1 \<le> i \<and> i \<le> int (length ?ls) \<and> ?idx i = Some ''bbbbbb''} = {2}"
    by (auto split: if_splits)
  have glob1: "{i. 1 \<le> i \<and> i \<le> int (length ?ls) \<and> ?idx i = Some ''ffffff''} = {}"
    by (auto split: if_splits)
  show ?thesis
    using resolveLineHash_tiers [where idx = ?idx and ls = ?ls and ms = "{}"
            and ref = "\<lparr>lineNumber = 1, hash = ''aaaaaa''\<rparr>"]
          resolveLineHash_tiers [where idx = ?idx and ls = ?ls and ms = "{2}"
            and ref = "\<lparr>lineNumber = 2, hash = ''ffffff''\<rparr>"]
          resolveLineHash_tiers [where idx = ?idx and ls = ?ls and ms = "{}"
            and ref = "\<lparr>lineNumber = 3, hash = ''bbbbbb''\<rparr>" and c = 2]
          resolveLineHash_tiers [where idx = ?idx and ls = ?ls and ms = "{}"
            and ref = "\<lparr>lineNumber = 20, hash = ''bbbbbb''\<rparr>" and g = 2]
          resolveLineHash_tiers [where idx = ?idx and ls = ?ls and ms = "{}"
            and ref = "\<lparr>lineNumber = 1, hash = ''ffffff''\<rparr>"]
          near3 near20 glob20 glob1
    by simp
qed

text \<open>
  Claim C3. When resolution reaches the window search and more than one index entry of the
  window equals the hash, the result is the ambiguity error carrying every such line number in
  increasing order; when the window has no hit and more than one entry of the whole buffer
  equals the hash, the result is the global ambiguity error carrying every such line number.
  In both cases the result is an error, so no candidate is returned.
\<close>

theorem resolveLineHash_ambiguous:
  fixes ref :: line_ref
  shows
  "idx (lineNumber ref) \<noteq> Some (hash ref) \<and> lineNumber ref \<notin> ms \<longrightarrow>
     (1 < card {i. max 1 (lineNumber ref - 10) \<le> i \<and> i \<le> min (int (length ls)) (lineNumber ref + 10)
               \<and> idx i = Some (hash ref)}
        \<longrightarrow> resolveLineHash ref ls idx ms
              = Inl (AmbiguousNearby (lineNumber ref) (hash ref)
                   (sorted_list_of_set
                      {i. max 1 (lineNumber ref - 10) \<le> i \<and> i \<le> min (int (length ls)) (lineNumber ref + 10)
                          \<and> idx i = Some (hash ref)})))
   \<and> ({i. max 1 (lineNumber ref - 10) \<le> i \<and> i \<le> min (int (length ls)) (lineNumber ref + 10)
               \<and> idx i = Some (hash ref)} = {}
        \<and> 1 < card {i. 1 \<le> i \<and> i \<le> int (length ls) \<and> idx i = Some (hash ref)}
        \<longrightarrow> resolveLineHash ref ls idx ms
              = Inl (AmbiguousGlobal (lineNumber ref) (hash ref)
                   (sorted_list_of_set {i. 1 \<le> i \<and> i \<le> int (length ls) \<and> idx i = Some (hash ref)})))"
proof (intro impI conjI; elim conjE)
  let ?lo = "max 1 (lineNumber ref - 10)"
  let ?hi = "min (int (length ls)) (lineNumber ref + 10)"
  assume ne: "idx (lineNumber ref) \<noteq> Some (hash ref)" and nm: "lineNumber ref \<notin> ms"
  {
    assume "1 < card {i. ?lo \<le> i \<and> i \<le> ?hi \<and> idx i = Some (hash ref)}"
    then have "1 < length (candidates idx (hash ref) ?lo ?hi)"
      by (simp only: length_candidates)
    then show "resolveLineHash ref ls idx ms
              = Inl (AmbiguousNearby (lineNumber ref) (hash ref)
                   (sorted_list_of_set {i. ?lo \<le> i \<and> i \<le> ?hi \<and> idx i = Some (hash ref)}))"
      unfolding candidates_sorted_list [symmetric]
      using ne nm by (simp add: resolveLineHash_def Let_def)
  }
  {
    assume "{i. ?lo \<le> i \<and> i \<le> ?hi \<and> idx i = Some (hash ref)} = {}"
      and "1 < card {i. 1 \<le> i \<and> i \<le> int (length ls) \<and> idx i = Some (hash ref)}"
    then have n0: "candidates idx (hash ref) ?lo ?hi = []"
      and g2: "1 < length (candidates idx (hash ref) 1 (int (length ls)))"
      by (simp_all only: length_candidates candidates_empty)
    show "resolveLineHash ref ls idx ms
              = Inl (AmbiguousGlobal (lineNumber ref) (hash ref)
                   (sorted_list_of_set {i. 1 \<le> i \<and> i \<le> int (length ls) \<and> idx i = Some (hash ref)}))"
      unfolding candidates_sorted_list [symmetric]
      using ne nm n0 g2 by (simp add: resolveLineHash_def Let_def)
  }
qed

theorem resolveLineHash_ambiguous_witness:
  "resolveLineHash \<lparr>lineNumber = 1, hash = ''bbbbbb''\<rparr> [''x'', ''y'', ''y'']
      [1 \<mapsto> ''aaaaaa'', 2 \<mapsto> ''bbbbbb'', 3 \<mapsto> ''bbbbbb''] {}
        = Inl (AmbiguousNearby 1 ''bbbbbb'' [2, 3])
   \<and> resolveLineHash \<lparr>lineNumber = 20, hash = ''bbbbbb''\<rparr> [''x'', ''y'', ''y'']
      [1 \<mapsto> ''aaaaaa'', 2 \<mapsto> ''bbbbbb'', 3 \<mapsto> ''bbbbbb''] {}
        = Inl (AmbiguousGlobal 20 ''bbbbbb'' [2, 3])"
proof -
  let ?idx = "[1 \<mapsto> ''aaaaaa'', 2 \<mapsto> ''bbbbbb'', 3 \<mapsto> ''bbbbbb''] :: int \<rightharpoonup> string"
  let ?ls = "[''x'', ''y'', ''y'']"
  have near1: "{i. max 1 (1 - 10) \<le> i \<and> i \<le> min (int (length ?ls)) (1 + 10)
                  \<and> ?idx i = Some ''bbbbbb''} = {2, 3}"
    by (auto split: if_splits)
  have near20: "{i. max 1 (20 - 10) \<le> i \<and> i \<le> min (int (length ?ls)) (20 + 10)
                  \<and> ?idx i = Some ''bbbbbb''} = {}"
    by auto
  have glob20: "{i. 1 \<le> i \<and> i \<le> int (length ?ls) \<and> ?idx i = Some ''bbbbbb''} = {2, 3}"
    by (auto split: if_splits)
  show ?thesis
    using resolveLineHash_ambiguous [where idx = ?idx and ls = ?ls and ms = "{}"
            and ref = "\<lparr>lineNumber = 1, hash = ''bbbbbb''\<rparr>"]
          resolveLineHash_ambiguous [where idx = ?idx and ls = ?ls and ms = "{}"
            and ref = "\<lparr>lineNumber = 20, hash = ''bbbbbb''\<rparr>"]
          near1 near20 glob20
    by simp
qed

section \<open>Tokens\<close>

lemma takeWhile_digits:
  "list_all isDigit ds \<Longrightarrow> takeWhile isDigit (ds @ CHR '':'' # h) = ds"
  by (simp add: list_all_iff isDigit_def)

lemma dropWhile_digits:
  "list_all isDigit ds \<Longrightarrow> dropWhile isDigit (ds @ CHR '':'' # h) = CHR '':'' # h"
  by (simp add: list_all_iff isDigit_def)

lemma parseLineHash_token:
  assumes "ds \<noteq> []" and "list_all isDigit ds" and "length h = 6" and "list_all isHexAnyCase h"
  shows "parseLineHash (ds @ '':'' @ h) = Some \<lparr>lineNumber = int (parseInt10 ds), hash = h\<rparr>"
  using assms by (simp add: parseLineHash_def takeWhile_digits dropWhile_digits)

lemma isHexLower_any: "isHexLower c \<Longrightarrow> isHexAnyCase c"
  by (auto simp: isHexLower_def isHexAnyCase_def)

lemma parseLineHash_fingerprint:
  assumes "ds \<noteq> []" and "list_all isDigit ds"
  shows "parseLineHash (ds @ '':'' @ generateLineHash s n)
           = Some \<lparr>lineNumber = int (parseInt10 ds), hash = generateLineHash s n\<rparr>"
proof (rule parseLineHash_token [OF assms])
  show "length (generateLineHash s n) = 6" by (rule length_generateLineHash)
  show "list_all isHexAnyCase (generateLineHash s n)"
    using generateLineHash_lower [of s n] by (auto simp: list_all_iff isHexLower_any)
qed

lemma upt_2: "[0..<2] = [0, 1]"
  by (simp add: upt_conv_Cons)

lemma initialState_ab:
  "initialState [CHR ''a'', CHR 0x0A, CHR ''b'']
     = \<lparr>lines = [''a'', ''b''],
        hashIndex = [1 \<mapsto> generateLineHash ''a'' 1, 2 \<mapsto> generateLineHash ''b'' 2],
        modifiedLines = {}, minAffectedLine = None, maxAffectedLine = None\<rparr>"
  by (simp add: initialState_def rebuildIndex_def upt_2)

lemma parse_1a: "parseLineHash (''1:'' @ generateLineHash ''a'' 1)
           = Some \<lparr>lineNumber = 1, hash = generateLineHash ''a'' 1\<rparr>"
  using parseLineHash_fingerprint [of "''1''" "''a''" 1]
  by (simp add: isDigit_def parseInt10_def)

lemma parse_2b: "parseLineHash (''2:'' @ generateLineHash ''b'' 2)
           = Some \<lparr>lineNumber = 2, hash = generateLineHash ''b'' 2\<rparr>"
  using parseLineHash_fingerprint [of "''2''" "''b''" 2]
  by (simp add: isDigit_def parseInt10_def)

section \<open>Range verification\<close>

lemma verifyRange_None_iff:
  "verifyRange ls idx ms xs = None
     \<longleftrightarrow> (\<forall>i\<in>set xs. i \<in> ms \<or> idx i = Some (generateLineHash (ls ! nat (i - 1)) i))"
  by (induction xs) auto

lemma verifyRange_Some:
  "verifyRange ls idx ms xs = Some e \<Longrightarrow>
     \<exists>i\<in>set xs. e = HashMismatch i \<and> i \<notin> ms
        \<and> idx i \<noteq> Some (generateLineHash (ls ! nat (i - 1)) i)"
  by (induction xs) (auto split: if_splits)

lemma verifyRange_cases:
  "(\<exists>i. s \<le> i \<and> i \<le> t \<and> i \<notin> ms \<and> idx i \<noteq> Some (generateLineHash (ls ! nat (i - 1)) i))
     \<longleftrightarrow> (\<exists>i. verifyRange ls idx ms [s..t] = Some (HashMismatch i))"
proof
  assume "\<exists>i. s \<le> i \<and> i \<le> t \<and> i \<notin> ms \<and> idx i \<noteq> Some (generateLineHash (ls ! nat (i - 1)) i)"
  then have "verifyRange ls idx ms [s..t] \<noteq> None"
    by (auto simp: verifyRange_None_iff)
  then obtain e where "verifyRange ls idx ms [s..t] = Some e" by auto
  with verifyRange_Some [OF this] show "\<exists>i. verifyRange ls idx ms [s..t] = Some (HashMismatch i)"
    by auto
next
  assume "\<exists>i. verifyRange ls idx ms [s..t] = Some (HashMismatch i)"
  then obtain i where "verifyRange ls idx ms [s..t] = Some (HashMismatch i)" ..
  from verifyRange_Some [OF this] show
    "\<exists>i. s \<le> i \<and> i \<le> t \<and> i \<notin> ms \<and> idx i \<noteq> Some (generateLineHash (ls ! nat (i - 1)) i)"
    by auto
qed

text \<open>
  Claim C5. For \<^verbatim>\<open>replace_range\<close> and \<^verbatim>\<open>delete_range\<close>, once both references have
  parsed and resolved to \<open>s\<close> and \<open>t\<close> and the bounds \<open>1 \<le> s \<le> t \<le> length\<close> hold, the
  operation fails with the hash-mismatch error if and only if some line \<open>i\<close> of the range
  \<open>s..t\<close> that is not in the modified-lines set has a fingerprint different from its index
  entry; without such a line the operation succeeds.
\<close>

theorem range_verification:
  assumes "parseLineHash startHash = Some startRef"
    and "parseLineHash endHash = Some endRef"
    and "resolveLineHash startRef (lines st) (hashIndex st) (modifiedLines st) = Inr s"
    and "resolveLineHash endRef (lines st) (hashIndex st) (modifiedLines st) = Inr t"
    and "1 \<le> s" and "s \<le> int (length (lines st))"
    and "s \<le> t" and "t \<le> int (length (lines st))"
  shows
    "((\<exists>i. applyEdit st (replace_range startHash endHash newLines) = Inl (HashMismatch i))
        \<longleftrightarrow> (\<exists>i. s \<le> i \<and> i \<le> t \<and> i \<notin> modifiedLines st
                 \<and> hashIndex st i \<noteq> Some (generateLineHash (lines st ! nat (i - 1)) i)))
     \<and> ((\<exists>i. applyEdit st (delete_range startHash endHash) = Inl (HashMismatch i))
        \<longleftrightarrow> (\<exists>i. s \<le> i \<and> i \<le> t \<and> i \<notin> modifiedLines st
                 \<and> hashIndex st i \<noteq> Some (generateLineHash (lines st ! nat (i - 1)) i)))
     \<and> ((\<nexists>i. s \<le> i \<and> i \<le> t \<and> i \<notin> modifiedLines st
                 \<and> hashIndex st i \<noteq> Some (generateLineHash (lines st ! nat (i - 1)) i))
        \<longrightarrow> (\<exists>st'. applyEdit st (replace_range startHash endHash newLines) = Inr st')
            \<and> (\<exists>st'. applyEdit st (delete_range startHash endHash) = Inr st'))"
proof -
  let ?v = "verifyRange (lines st) (hashIndex st) (modifiedLines st) [s..t]"
  have r: "applyEdit st (replace_range startHash endHash newLines)
             = (case ?v of Some e \<Rightarrow> Inl e
                | None \<Rightarrow> Inr (rebuilt st
                     (js_slice (lines st) 0 (s - 1) @ newLines @ js_slice_from (lines st) t)
                     s (s + int (length newLines))))"
    using assms by simp
  have d: "applyEdit st (delete_range startHash endHash)
             = (case ?v of Some e \<Rightarrow> Inl e
                | None \<Rightarrow> Inr (rebuilt st (js_splice (lines st) (s - 1) (t - s + 1)) s (s + 5)))"
    using assms by simp
  show ?thesis
    unfolding r d verifyRange_cases [of s t "modifiedLines st" "hashIndex st" "lines st"]
    by (auto split: option.splits dest: verifyRange_Some)
qed

theorem range_verification_witness:
  "parseLineHash (''1:'' @ generateLineHash ''a'' 1)
     = Some \<lparr>lineNumber = 1, hash = generateLineHash ''a'' 1\<rparr>
   \<and> parseLineHash (''2:'' @ generateLineHash ''b'' 2)
     = Some \<lparr>lineNumber = 2, hash = generateLineHash ''b'' 2\<rparr>
   \<and> (\<exists>st'. applyEdit (initialState [CHR ''a'', CHR 0x0A, CHR ''b''])
               (replace_range (''1:'' @ generateLineHash ''a'' 1) (''2:'' @ generateLineHash ''b'' 2) [''c''])
             = Inr st')
   \<and> (\<exists>st'. applyEdit (initialState [CHR ''a'', CHR 0x0A, CHR ''b''])
               (delete_range (''1:'' @ generateLineHash ''a'' 1) (''2:'' @ generateLineHash ''b'' 2))
             = Inr st')"
proof -
  let ?st = "initialState [CHR ''a'', CHR 0x0A, CHR ''b'']"
  have rs: "resolveLineHash \<lparr>lineNumber = 1, hash = generateLineHash ''a'' 1\<rparr>
              (lines ?st) (hashIndex ?st) (modifiedLines ?st) = Inr 1"
    by (simp add: initialState_ab resolveLineHash_def)
  have rt: "resolveLineHash \<lparr>lineNumber = 2, hash = generateLineHash ''b'' 2\<rparr>
              (lines ?st) (hashIndex ?st) (modifiedLines ?st) = Inr 2"
    by (simp add: initialState_ab resolveLineHash_def)
  have len: "int (length (lines ?st)) = 2" by (simp add: initialState_ab)
  have ok: "\<nexists>i. (1::int) \<le> i \<and> i \<le> 2 \<and> i \<notin> modifiedLines ?st
             \<and> hashIndex ?st i \<noteq> Some (generateLineHash (lines ?st ! nat (i - 1)) i)"
  proof
    assume "\<exists>i. (1::int) \<le> i \<and> i \<le> 2 \<and> i \<notin> modifiedLines ?st
             \<and> hashIndex ?st i \<noteq> Some (generateLineHash (lines ?st ! nat (i - 1)) i)"
    then obtain i where i: "(1::int) \<le> i" "i \<le> 2"
      and m: "hashIndex ?st i \<noteq> Some (generateLineHash (lines ?st ! nat (i - 1)) i)" by blast
    from i have "i = 1 \<or> i = 2" by arith
    with m show False by (auto simp: initialState_ab)
  qed
  show ?thesis
    using range_verification [OF parse_1a parse_2b rs rt, of "[''c'']"] ok parse_1a parse_2b
    by (simp add: len)
qed

section \<open>Insertion and atomicity\<close>

lemma js_slice_prefix:
  "0 \<le> n \<Longrightarrow> n \<le> int (length xs) \<Longrightarrow> js_slice xs 0 n = take (nat n) xs"
  by (simp add: js_slice_def js_index_def min_def)

lemma js_slice_from_suffix:
  "0 \<le> n \<Longrightarrow> n \<le> int (length xs) \<Longrightarrow> js_slice_from xs n = drop (nat n) xs"
  by (simp add: js_slice_from_def js_index_def min_def)

lemma js_splice_remove:
  "0 \<le> k \<Longrightarrow> 0 \<le> d \<Longrightarrow> k + d \<le> int (length xs) \<Longrightarrow>
     js_splice xs k d = take (nat k) xs @ drop (nat (k + d)) xs"
  by (simp add: js_splice_def js_index_def Let_def min_def max_def nat_add_distrib)

text \<open>
  Claim C8. An \<^verbatim>\<open>insert_after\<close> whose reference parses and resolves to a line \<open>n\<close> of the
  buffer succeeds, and the new buffer is the first \<open>n\<close> lines, then the new lines, then the
  remaining lines, each existing line unchanged. When \<open>n\<close> is the last line, the new lines are
  appended at the end of the buffer.
\<close>

theorem insert_after_splice:
  assumes "parseLineHash lineHash = Some ref"
    and "resolveLineHash ref (lines st) (hashIndex st) (modifiedLines st) = Inr n"
    and "1 \<le> n" and "n \<le> int (length (lines st))"
  shows "\<exists>st'. applyEdit st (insert_after lineHash newLines) = Inr st'
           \<and> lines st' = take (nat n) (lines st) @ newLines @ drop (nat n) (lines st)
           \<and> (n = int (length (lines st)) \<longrightarrow> lines st' = lines st @ newLines)"
  using assms by (simp add: rebuilt_def js_slice_prefix js_slice_from_suffix)

theorem insert_after_splice_witness:
  "parseLineHash (''2:'' @ generateLineHash ''b'' 2)
     = Some \<lparr>lineNumber = 2, hash = generateLineHash ''b'' 2\<rparr>
   \<and> resolveLineHash \<lparr>lineNumber = 2, hash = generateLineHash ''b'' 2\<rparr>
        (lines (initialState [CHR ''a'', CHR 0x0A, CHR ''b'']))
        (hashIndex (initialState [CHR ''a'', CHR 0x0A, CHR ''b'']))
        (modifiedLines (initialState [CHR ''a'', CHR 0x0A, CHR ''b''])) = Inr 2
   \<and> (\<exists>st'. applyEdit (initialState [CHR ''a'', CHR 0x0A, CHR ''b''])
               (insert_after (''2:'' @ generateLineHash ''b'' 2) [''c'', ''d'']) = Inr st'
           \<and> lines st' = [''a'', ''b'', ''c'', ''d''])"
proof -
  let ?st = "initialState [CHR ''a'', CHR 0x0A, CHR ''b'']"
  have rt: "resolveLineHash \<lparr>lineNumber = 2, hash = generateLineHash ''b'' 2\<rparr>
              (lines ?st) (hashIndex ?st) (modifiedLines ?st) = Inr 2"
    by (simp add: initialState_ab resolveLineHash_def)
  have ls: "lines ?st = [''a'', ''b'']" by (simp add: initialState_ab)
  show ?thesis
    using insert_after_splice [OF parse_2b rt, of "[''c'', ''d'']"] parse_2b rt
    by (simp add: ls)
qed

lemma applyEdits_fails:
  "applyEdits aborted k st es1 = Inr st1 \<Longrightarrow> applyEdit st1 e = Inl err
     \<Longrightarrow> \<exists>err'. applyEdits aborted k st (es1 @ e # es2) = Inl err'"
  by (induction es1 arbitrary: k st) (auto split: if_splits sum.splits)

lemma applyEdits_fails_exact:
  "applyEdits aborted k st es1 = Inr st1 \<Longrightarrow> applyEdit st1 e = Inl err
     \<Longrightarrow> \<not> aborted (k + length es1)
     \<Longrightarrow> applyEdits aborted k st (es1 @ e # es2) = Inl err"
  by (induction es1 arbitrary: k st) (auto split: if_splits sum.splits)

text \<open>
  Claim C2. If some operation of the batch fails (after the operations before it succeeded),
  the call returns an error and leaves the file system as it was. Whenever the call returns an
  error, of any kind, the file system is unchanged. When the call returns normally, every
  operation of the batch succeeded and the one write stores the joined final buffer.
\<close>

theorem edit_execute_atomic:
  "(\<forall>es1 e es2 buffer st1 err.
       edits = es1 @ e # es2 \<and> fs absolutePath = Some buffer
       \<and> applyEdits aborted 1 (initialState buffer) es1 = Inr st1 \<and> applyEdit st1 e = Inl err
       \<longrightarrow> (\<exists>err'. edit_execute extname aborted fs absolutePath edits = (Inl err', fs)))
   \<and> (\<forall>err. fst (edit_execute extname aborted fs absolutePath edits) = Inl err
         \<longrightarrow> snd (edit_execute extname aborted fs absolutePath edits) = fs)
   \<and> (\<forall>st. fst (edit_execute extname aborted fs absolutePath edits) = Inr st
         \<longrightarrow> (\<exists>buffer. fs absolutePath = Some buffer
                 \<and> applyEdits aborted 1 (initialState buffer) edits = Inr st
                 \<and> snd (edit_execute extname aborted fs absolutePath edits)
                     = fs(absolutePath \<mapsto> join_lines (lines st))))"
proof (intro conjI allI impI)
  fix es1 e es2 buffer st1 err
  assume "edits = es1 @ e # es2 \<and> fs absolutePath = Some buffer
       \<and> applyEdits aborted 1 (initialState buffer) es1 = Inr st1 \<and> applyEdit st1 e = Inl err"
  then have ed: "edits = es1 @ e # es2" and b: "fs absolutePath = Some buffer"
    and p: "applyEdits aborted 1 (initialState buffer) es1 = Inr st1"
    and f: "applyEdit st1 e = Inl err" by simp_all
  from applyEdits_fails [OF p f] obtain err' where
    "applyEdits aborted 1 (initialState buffer) edits = Inl err'"
    unfolding ed by blast
  then show "\<exists>err'. edit_execute extname aborted fs absolutePath edits = (Inl err', fs)"
    using b by (simp add: edit_execute_def split: option.splits)
next
  fix err
  assume "fst (edit_execute extname aborted fs absolutePath edits) = Inl err"
  then show "snd (edit_execute extname aborted fs absolutePath edits) = fs"
    by (auto simp: edit_execute_def split: if_splits option.splits sum.splits)
next
  fix st
  assume "fst (edit_execute extname aborted fs absolutePath edits) = Inr st"
  then show "\<exists>buffer. fs absolutePath = Some buffer
                 \<and> applyEdits aborted 1 (initialState buffer) edits = Inr st
                 \<and> snd (edit_execute extname aborted fs absolutePath edits)
                     = fs(absolutePath \<mapsto> join_lines (lines st))"
    by (auto simp: edit_execute_def split: if_splits option.splits sum.splits)
qed

section \<open>The index invariant\<close>

lemma index_covers_iff:
  "index_covers st \<longleftrightarrow>
     (\<forall>i. 1 \<le> i \<and> i \<le> int (length (lines st))
        \<longrightarrow> hashIndex st i = Some (generateLineHash (lines st ! nat (i - 1)) i))"
  by (auto simp: index_covers_def list_all_iff)

lemma generateLineHash_arg: "generateLineHash s n = generateLineHash s m"
  by (simp add: generateLineHash_def)

lemma rebuild_fold:
  "foldl (\<lambda>m k. m(int k + 1 \<mapsto> generateLineHash (ls ! k) (int k + 1))) idx [0..<n] i
     = (if 1 \<le> i \<and> i \<le> int n then Some (generateLineHash (ls ! nat (i - 1)) i) else idx i)"
proof (induction n)
  case 0
  then show ?case by auto
next
  case (Suc n)
  show ?case
  proof (cases "i = int n + 1")
    case True
    then have "nat (i - 1) = n" by simp
    with True show ?thesis by simp
  next
    case False
    with Suc show ?thesis by auto
  qed
qed

lemma rebuildIndex_apply:
  "rebuildIndex idx ls i
     = (if 1 \<le> i \<and> i \<le> int (length ls) then Some (generateLineHash (ls ! nat (i - 1)) i)
        else idx i)"
  unfolding rebuildIndex_def by (rule rebuild_fold)

lemma index_covers_rebuilt: "index_covers (rebuilt st ls lo hi)"
  by (simp add: index_covers_iff rebuilt_def rebuildIndex_apply)

lemma index_covers_initial: "index_covers (initialState buffer)"
  by (simp add: index_covers_iff initialState_def rebuildIndex_apply)

lemma applyEdit_replace_line_Inr:
  assumes "applyEdit st (replace_line lineHash newText) = Inr st'"
  shows "\<exists>n. 1 \<le> n \<and> n \<le> int (length (lines st))
           \<and> lines st' = (lines st)[nat (n - 1) := newText]
           \<and> hashIndex st' = (hashIndex st)(n \<mapsto> generateLineHash newText n)
           \<and> modifiedLines st' = insert n (modifiedLines st)"
proof -
  from assms obtain ref n where "parseLineHash lineHash = Some ref"
    and "resolveLineHash ref (lines st) (hashIndex st) (modifiedLines st) = Inr n"
    and n: "\<not> (n < 1 \<or> n > int (length (lines st)))"
    and st': "st' = st\<lparr>lines := (lines st)[nat (n - 1) := newText],
                modifiedLines := insert n (modifiedLines st),
                minAffectedLine := track_min (minAffectedLine st) n,
                maxAffectedLine := track_max (maxAffectedLine st) n,
                hashIndex := (hashIndex st)(n \<mapsto> generateLineHash newText n)\<rparr>"
    by (auto split: option.splits sum.splits if_splits)
  from n st' show ?thesis by (intro exI [of _ n]) simp
qed

lemma applyEdit_structural_Inr:
  assumes "applyEdit st e = Inr st'" and "\<forall>lineHash newText. e \<noteq> replace_line lineHash newText"
  shows "\<exists>ls lo hi. st' = rebuilt st ls lo hi"
  using assms by (cases e) (auto split: option.splits sum.splits if_splits)

lemma lines_rebuilt: "lines (rebuilt st ls lo hi) = ls"
  and hashIndex_rebuilt: "hashIndex (rebuilt st ls lo hi) = rebuildIndex (hashIndex st) ls"
  and modifiedLines_rebuilt: "modifiedLines (rebuilt st ls lo hi) = {}"
  by (simp_all add: rebuilt_def)

lemma index_covers_replace_line:
  assumes "index_covers st" and "applyEdit st (replace_line lineHash newText) = Inr st'"
  shows "index_covers st'"
proof -
  from applyEdit_replace_line_Inr [OF assms(2)] obtain n where
    n: "1 \<le> n" "n \<le> int (length (lines st))"
    and ls: "lines st' = (lines st)[nat (n - 1) := newText]"
    and ix: "hashIndex st' = (hashIndex st)(n \<mapsto> generateLineHash newText n)" by blast
  show ?thesis
    unfolding index_covers_iff
  proof (intro allI impI)
    fix i assume i: "1 \<le> i \<and> i \<le> int (length (lines st'))"
    show "hashIndex st' i = Some (generateLineHash (lines st' ! nat (i - 1)) i)"
    proof (cases "i = n")
      case True
      with n show ?thesis by (simp add: ls ix)
    next
      case False
      with i n have "nat (i - 1) \<noteq> nat (n - 1)" by auto
      moreover from assms(1) i have
        "hashIndex st i = Some (generateLineHash (lines st ! nat (i - 1)) i)"
        by (simp add: index_covers_iff ls)
      ultimately show ?thesis using False by (simp add: ls ix)
    qed
  qed
qed

lemma index_covers_applyEdit:
  assumes "index_covers st" and "applyEdit st e = Inr st'"
  shows "index_covers st'"
proof (cases "\<exists>lineHash newText. e = replace_line lineHash newText")
  case True
  with assms show ?thesis by (auto intro: index_covers_replace_line)
next
  case False
  with applyEdit_structural_Inr [OF assms(2)] show ?thesis
    by (auto simp: index_covers_rebuilt)
qed

lemma index_covers_applyEdits:
  "index_covers st \<Longrightarrow> applyEdits aborted k st es = Inr st' \<Longrightarrow> index_covers st'"
proof (induction es arbitrary: k st)
  case Nil
  then show ?case by simp
next
  case (Cons e es)
  from Cons.prems(2) obtain st1 where s1: "applyEdit st e = Inr st1"
    and rest: "applyEdits aborted (Suc k) st1 es = Inr st'"
    by (auto split: if_splits sum.splits)
  from index_covers_applyEdit [OF Cons.prems(1) s1] have "index_covers st1" .
  from Cons.IH [OF this rest] show ?case .
qed

text \<open>
  Claim C4. The index covers the buffer at the start of an edit call and after every prefix
  of operations that has been applied. A successful \<^verbatim>\<open>replace_line\<close> keeps the invariant by
  changing the one entry of the replaced line; every other operation keeps it by rebuilding the
  entries of all lines of the new buffer, and clears the modified-lines set.
\<close>

theorem hash_index_invariant:
  "index_covers (initialState buffer)
   \<and> (applyEdits aborted k (initialState buffer) es = Inr st \<longrightarrow> index_covers st)
   \<and> (index_covers st0 \<and> applyEdit st0 e = Inr st1 \<longrightarrow>
        index_covers st1
        \<and> (case e of
             replace_line lineHash newText \<Rightarrow>
               (\<exists>n. 1 \<le> n \<and> n \<le> int (length (lines st0))
                  \<and> lines st1 = (lines st0)[nat (n - 1) := newText]
                  \<and> hashIndex st1 = (hashIndex st0)(n \<mapsto> generateLineHash newText n)
                  \<and> modifiedLines st1 = insert n (modifiedLines st0))
           | _ \<Rightarrow> hashIndex st1 = rebuildIndex (hashIndex st0) (lines st1)
                  \<and> modifiedLines st1 = {}))"
proof (intro conjI impI)
  show "index_covers (initialState buffer)" by (rule index_covers_initial)
next
  assume "applyEdits aborted k (initialState buffer) es = Inr st"
  with index_covers_initial show "index_covers st" by (rule index_covers_applyEdits)
next
  assume a: "index_covers st0 \<and> applyEdit st0 e = Inr st1"
  then show "index_covers st1" by (auto intro: index_covers_applyEdit)
next
  assume a: "index_covers st0 \<and> applyEdit st0 e = Inr st1"
  then have ok: "applyEdit st0 e = Inr st1" by simp
  show "case e of
             replace_line lineHash newText \<Rightarrow>
               (\<exists>n. 1 \<le> n \<and> n \<le> int (length (lines st0))
                  \<and> lines st1 = (lines st0)[nat (n - 1) := newText]
                  \<and> hashIndex st1 = (hashIndex st0)(n \<mapsto> generateLineHash newText n)
                  \<and> modifiedLines st1 = insert n (modifiedLines st0))
           | _ \<Rightarrow> hashIndex st1 = rebuildIndex (hashIndex st0) (lines st1)
                  \<and> modifiedLines st1 = {}"
  proof (cases e)
    case (replace_line lineHash newText)
    with ok show ?thesis
      using applyEdit_replace_line_Inr by auto
  next
    case (replace_range x1 x2 x3)
    with applyEdit_structural_Inr [OF ok] show ?thesis
      by (auto simp: lines_rebuilt hashIndex_rebuilt modifiedLines_rebuilt)
  next
    case (insert_after x1 x2)
    with applyEdit_structural_Inr [OF ok] show ?thesis
      by (auto simp: lines_rebuilt hashIndex_rebuilt modifiedLines_rebuilt)
  next
    case (delete_line x1)
    with applyEdit_structural_Inr [OF ok] show ?thesis
      by (auto simp: lines_rebuilt hashIndex_rebuilt modifiedLines_rebuilt)
  next
    case (delete_range x1 x2)
    with applyEdit_structural_Inr [OF ok] show ?thesis
      by (auto simp: lines_rebuilt hashIndex_rebuilt modifiedLines_rebuilt)
  qed
qed

lemma js_slice_ab: "js_slice [''a'', ''b''] 0 2 = [''a'', ''b'']"
  by (simp add: js_slice_def js_index_def)

theorem hash_index_invariant_witness:
  "index_covers (initialState [CHR ''a'', CHR 0x0A, CHR ''b''])
   \<and> applyEdit (initialState [CHR ''a'', CHR 0x0A, CHR ''b''])
         (insert_after (''2:'' @ generateLineHash ''b'' 2) [''c''])
       = Inr (rebuilt (initialState [CHR ''a'', CHR 0x0A, CHR ''b'']) [''a'', ''b'', ''c''] 3 3)
   \<and> index_covers (rebuilt (initialState [CHR ''a'', CHR 0x0A, CHR ''b'']) [''a'', ''b'', ''c''] 3 3)
   \<and> hashIndex (rebuilt (initialState [CHR ''a'', CHR 0x0A, CHR ''b'']) [''a'', ''b'', ''c''] 3 3)
       = rebuildIndex (hashIndex (initialState [CHR ''a'', CHR 0x0A, CHR ''b''])) [''a'', ''b'', ''c'']
   \<and> modifiedLines (rebuilt (initialState [CHR ''a'', CHR 0x0A, CHR ''b'']) [''a'', ''b'', ''c''] 3 3)
       = {}"
proof -
  let ?st = "initialState [CHR ''a'', CHR 0x0A, CHR ''b'']"
  have ap: "applyEdit ?st (insert_after (''2:'' @ generateLineHash ''b'' 2) [''c''])
              = Inr (rebuilt ?st [''a'', ''b'', ''c''] 3 3)"
    by (simp only: applyEdit.simps parse_2b option.case)
       (simp add: initialState_ab resolveLineHash_def js_slice_ab js_slice_from_def js_index_def)
  show ?thesis
    using hash_index_invariant [where buffer = "[CHR ''a'', CHR 0x0A, CHR ''b'']"
            and aborted = "\<lambda>_. False" and k = 1 and es = "[]" and st = ?st
            and ?st0.0 = ?st and e = "insert_after (''2:'' @ generateLineHash ''b'' 2) [''c'']"
            and ?st1.0 = "rebuilt ?st [''a'', ''b'', ''c''] 3 3"] ap
    by (simp add: lines_rebuilt)
qed


lemma lower_rebuildIndex:
  assumes "\<forall>i h. idx i = Some h \<longrightarrow> list_all isHexLower h"
  shows "\<forall>i h. rebuildIndex idx ls i = Some h \<longrightarrow> list_all isHexLower h"
  using assms by (auto simp: rebuildIndex_apply generateLineHash_lower split: if_splits)

lemma lower_initial:
  "\<forall>i h. hashIndex (initialState buffer) i = Some h \<longrightarrow> list_all isHexLower h"
  using lower_rebuildIndex [of Map.empty "split_lines buffer"] by (simp add: initialState_def)

lemma lower_applyEdit:
  assumes "\<forall>i h. hashIndex st i = Some h \<longrightarrow> list_all isHexLower h"
    and "applyEdit st e = Inr st'"
  shows "\<forall>i h. hashIndex st' i = Some h \<longrightarrow> list_all isHexLower h"
proof (cases "\<exists>lineHash newText. e = replace_line lineHash newText")
  case True
  then obtain lineHash newText where e: "e = replace_line lineHash newText" by blast
  from applyEdit_replace_line_Inr [OF assms(2) [unfolded e]] obtain n where
    "hashIndex st' = (hashIndex st)(n \<mapsto> generateLineHash newText n)" by blast
  with assms(1) show ?thesis by (auto simp: generateLineHash_lower)
next
  case False
  with applyEdit_structural_Inr [OF assms(2)] obtain ls lo hi where
    "st' = rebuilt st ls lo hi" by blast
  with lower_rebuildIndex [OF assms(1)] show ?thesis by (simp add: hashIndex_rebuilt)
qed

lemma lower_applyEdits:
  "\<forall>i h. hashIndex st i = Some h \<longrightarrow> list_all isHexLower h
     \<Longrightarrow> applyEdits aborted k st es = Inr st'
     \<Longrightarrow> \<forall>i h. hashIndex st' i = Some h \<longrightarrow> list_all isHexLower h"
proof (induction es arbitrary: k st)
  case Nil
  then show ?case by simp
next
  case (Cons e es)
  from Cons.prems(2) obtain st1 where s1: "applyEdit st e = Inr st1"
    and rest: "applyEdits aborted (Suc k) st1 es = Inr st'"
    by (auto split: if_splits sum.splits)
  from lower_applyEdit [OF Cons.prems(1) s1]
  have "\<forall>i h. hashIndex st1 i = Some h \<longrightarrow> list_all isHexLower h" .
  from Cons.IH [OF this rest] show ?case .
qed

lemma candidates_no_entry:
  "\<forall>i. idx i \<noteq> Some h \<Longrightarrow> candidates idx h lo hi = []"
  by (simp add: candidates_def)

lemma resolve_not_lower:
  assumes "\<forall>i h. idx i = Some h \<longrightarrow> list_all isHexLower h"
    and "\<not> list_all isHexLower (hash ref)"
    and "lineNumber ref \<notin> ms"
  shows "resolveLineHash ref ls idx ms = Inl (HashNotFound (lineNumber ref) (hash ref))"
proof -
  from assms(1,2) have no: "\<forall>i. idx i \<noteq> Some (hash ref)" by blast
  then show ?thesis
    using assms(3) by (simp add: resolveLineHash_def candidates_no_entry)
qed

lemma upper_not_lower: "c \<in> set ''ABCDEF'' \<Longrightarrow> \<not> isHexLower c"
  by (auto simp: isHexLower_def)

text \<open>
  Claim C9. A token whose six hexadecimal digits include an uppercase letter is accepted by
  \<^verbatim>\<open>parseLineHash\<close>, which keeps the hash as written. In every state an edit call can
  reach, if its line number is not in the modified-lines set, resolution fails with the
  not-found error: no index entry, all of them lowercase, equals the hash.
\<close>

theorem uppercase_token_never_resolves:
  assumes "ds \<noteq> []" and "list_all isDigit ds"
    and "length h = 6" and "list_all isHexAnyCase h"
    and "\<exists>c\<in>set h. c \<in> set ''ABCDEF''"
    and "applyEdits aborted k (initialState buffer) es = Inr st"
    and "int (parseInt10 ds) \<notin> modifiedLines st"
  shows "parseLineHash (ds @ '':'' @ h) = Some \<lparr>lineNumber = int (parseInt10 ds), hash = h\<rparr>
         \<and> resolveLineHash \<lparr>lineNumber = int (parseInt10 ds), hash = h\<rparr>
              (lines st) (hashIndex st) (modifiedLines st)
            = Inl (HashNotFound (int (parseInt10 ds)) h)"
proof
  show "parseLineHash (ds @ '':'' @ h) = Some \<lparr>lineNumber = int (parseInt10 ds), hash = h\<rparr>"
    using assms(1-4) by (rule parseLineHash_token)
next
  from assms(5) obtain c where "c \<in> set h" and "c \<in> set ''ABCDEF''" by blast
  then have "c \<in> set h" and "\<not> isHexLower c" by (simp_all only: upper_not_lower simp_thms)
  then have nl: "\<not> list_all isHexLower h" by (auto simp: list_all_iff)
  have low: "\<forall>i h. hashIndex st i = Some h \<longrightarrow> list_all isHexLower h"
    using lower_initial assms(6) by (rule lower_applyEdits)
  show "resolveLineHash \<lparr>lineNumber = int (parseInt10 ds), hash = h\<rparr>
              (lines st) (hashIndex st) (modifiedLines st)
            = Inl (HashNotFound (int (parseInt10 ds)) h)"
    using resolve_not_lower [OF low, of "\<lparr>lineNumber = int (parseInt10 ds), hash = h\<rparr>"
            "modifiedLines st" "lines st"] nl assms(7)
    by simp
qed

section \<open>Failing references, the read window\<close>

theorem uppercase_token_never_resolves_witness:
  "parseLineHash ''1:A1B2C3'' = Some \<lparr>lineNumber = 1, hash = ''A1B2C3''\<rparr>
   \<and> resolveLineHash \<lparr>lineNumber = 1, hash = ''A1B2C3''\<rparr>
        (lines (initialState [CHR ''a'', CHR 0x0A, CHR ''b'']))
        (hashIndex (initialState [CHR ''a'', CHR 0x0A, CHR ''b'']))
        (modifiedLines (initialState [CHR ''a'', CHR 0x0A, CHR ''b'']))
      = Inl (HashNotFound 1 ''A1B2C3'')"
proof -
  have m: "int (parseInt10 ''1'') \<notin> modifiedLines (initialState [CHR ''a'', CHR 0x0A, CHR ''b''])"
    by (simp add: initialState_ab)
  have r: "applyEdits (\<lambda>_. False) 1 (initialState [CHR ''a'', CHR 0x0A, CHR ''b'']) []
             = Inr (initialState [CHR ''a'', CHR 0x0A, CHR ''b''])"
    by simp
  have d: "list_all isDigit ''1''" by (simp add: isDigit_def)
  have x: "list_all isHexAnyCase ''A1B2C3''" by (simp add: isHexAnyCase_def)
  have u: "\<exists>c\<in>set ''A1B2C3''. c \<in> set ''ABCDEF''" by simp
  show ?thesis
    using uppercase_token_never_resolves [of "''1''" "''A1B2C3''", OF _ d _ x u r m]
    by (simp add: parseInt10_def)
qed

lemma parse_9F: "parseLineHash ''9:FFFFFF'' = Some \<lparr>lineNumber = 9, hash = ''FFFFFF''\<rparr>"
  using parseLineHash_token [of "''9''" "''FFFFFF''"]
  by (simp add: isDigit_def isHexAnyCase_def parseInt10_def)

theorem edit_execute_atomic_witness:
  "applyEdits (\<lambda>_. False) 1 (initialState [CHR ''a'', CHR 0x0A, CHR ''b''])
      [replace_line (''1:'' @ generateLineHash ''a'' 1) ''x'']
     = Inr ((initialState [CHR ''a'', CHR 0x0A, CHR ''b''])
             \<lparr>lines := [''x'', ''b''], modifiedLines := {1},
              minAffectedLine := Some 1, maxAffectedLine := Some 1,
              hashIndex := [1 \<mapsto> generateLineHash ''x'' 1, 2 \<mapsto> generateLineHash ''b'' 2]\<rparr>)
   \<and> applyEdit ((initialState [CHR ''a'', CHR 0x0A, CHR ''b''])
             \<lparr>lines := [''x'', ''b''], modifiedLines := {1},
              minAffectedLine := Some 1, maxAffectedLine := Some 1,
              hashIndex := [1 \<mapsto> generateLineHash ''x'' 1, 2 \<mapsto> generateLineHash ''b'' 2]\<rparr>)
         (delete_line ''9:FFFFFF'')
       = Inl (HashNotFound 9 ''FFFFFF'')
   \<and> (\<exists>err'. edit_execute (\<lambda>_. []) (\<lambda>_. False)
                [''f'' \<mapsto> [CHR ''a'', CHR 0x0A, CHR ''b'']] ''f''
                [replace_line (''1:'' @ generateLineHash ''a'' 1) ''x'', delete_line ''9:FFFFFF'']
              = (Inl err', [''f'' \<mapsto> [CHR ''a'', CHR 0x0A, CHR ''b'']]))"
proof -
  let ?st0 = "initialState [CHR ''a'', CHR 0x0A, CHR ''b'']"
  let ?st1 = "?st0\<lparr>lines := [''x'', ''b''], modifiedLines := {1},
              minAffectedLine := Some 1, maxAffectedLine := Some 1,
              hashIndex := [1 \<mapsto> generateLineHash ''x'' 1, 2 \<mapsto> generateLineHash ''b'' 2]\<rparr>"
  let ?e1 = "replace_line (''1:'' @ generateLineHash ''a'' 1) ''x''"
  let ?fs = "[''f'' \<mapsto> [CHR ''a'', CHR 0x0A, CHR ''b'']] :: file_system"
  have e1: "applyEdit ?st0 ?e1 = Inr ?st1"
    by (simp only: applyEdit.simps parse_1a option.case)
       (simp add: initialState_ab resolveLineHash_def track_min_def track_max_def fun_upd_twist)
  then have p: "applyEdits (\<lambda>_. False) 1 ?st0 [?e1] = Inr ?st1" by simp
  have low: "\<forall>i h. hashIndex ?st1 i = Some h \<longrightarrow> list_all isHexLower h"
    using lower_initial p by (rule lower_applyEdits)
  have "resolveLineHash \<lparr>lineNumber = 9, hash = ''FFFFFF''\<rparr>
          (lines ?st1) (hashIndex ?st1) (modifiedLines ?st1)
        = Inl (HashNotFound (lineNumber \<lparr>lineNumber = 9, hash = ''FFFFFF''\<rparr>)
                 (hash \<lparr>lineNumber = 9, hash = ''FFFFFF''\<rparr>))"
    using low by (rule resolve_not_lower) (simp_all add: isHexLower_def)
  then have "resolveLineHash \<lparr>lineNumber = 9, hash = ''FFFFFF''\<rparr>
          (lines ?st1) (hashIndex ?st1) (modifiedLines ?st1) = Inl (HashNotFound 9 ''FFFFFF'')"
    by (simp only: line_ref.select_convs)
  then have f: "applyEdit ?st1 (delete_line ''9:FFFFFF'') = Inl (HashNotFound 9 ''FFFFFF'')"
    by (simp only: applyEdit.simps parse_9F option.case sum.case)
  have "\<exists>err'. edit_execute (\<lambda>_. []) (\<lambda>_. False) ?fs ''f'' [?e1, delete_line ''9:FFFFFF'']
          = (Inl err', ?fs)"
    using edit_execute_atomic [where edits = "[?e1, delete_line ''9:FFFFFF'']" and fs = ?fs
            and absolutePath = "''f''" and aborted = "\<lambda>_. False" and extname = "\<lambda>_. []",
            THEN conjunct1, rule_format,
            of "[?e1]" "delete_line ''9:FFFFFF''" "[]" "[CHR ''a'', CHR 0x0A, CHR ''b'']" ?st1
               "HashNotFound 9 ''FFFFFF''"] p f
    by simp
  with p f show ?thesis by (intro conjI)
qed











section \<open>Digests of concrete lines\<close>

lemma replicate_numeral_Cons: "replicate (numeral n) x = x # replicate (pred_numeral n) x"
  by (simp add: numeral_eq_Suc)

lemma upt_stages:
  "[0..<64] = [0..<8] @ [8..<16] @ [16..<24] @ [24..<32] @ [32..<40] @ [40..<48] @ [48..<56] @ [56..<64]"
  by (simp add: upt_conv_Cons)

lemma md5_hex_a: "md5_hex ''a'' = ''0cc175b9c0f1b6a831c399e269772661''"
proof -
  let ?M = "[32865, 0, 0, 0, 0, 0, 0, 0, 0, 0, 0, 0, 0, 0, 8, 0] :: u32 list"
  have w: "le_words (md5_pad [97]) = ?M"
    by (simp add: md5_pad_def le64_def upt_conv_Cons replicate_numeral_Cons)
  have s0: "foldl (md5_step ?M) (1732584193, 4023233417, 2562383102, 271733878) [0..<8]
      = (983391180, 2830069157, 3541949571, 3768614327)"
    by (simp add: upt_conv_Cons md5_step_def md5_K_def md5_s_def rotl32_def)
  have s8: "foldl (md5_step ?M) (983391180, 2830069157, 3541949571, 3768614327) [8..<16]
      = (1143229688, 4028513506, 1667277919, 3506346791)"
    by (simp add: upt_conv_Cons md5_step_def md5_K_def md5_s_def rotl32_def)
  have s16: "foldl (md5_step ?M) (1143229688, 4028513506, 1667277919, 3506346791) [16..<24]
      = (2353285424, 926673584, 766294179, 1919355258)"
    by (simp add: upt_conv_Cons md5_step_def md5_K_def md5_s_def rotl32_def)
  have s24: "foldl (md5_step ?M) (2353285424, 926673584, 766294179, 1919355258) [24..<32]
      = (2474913432, 927307295, 2493705198, 3338943332)"
    by (simp add: upt_conv_Cons md5_step_def md5_K_def md5_s_def rotl32_def)
  have s32: "foldl (md5_step ?M) (2474913432, 927307295, 2493705198, 3338943332) [32..<40]
      = (900213370, 3481166043, 1522403740, 2313219223)"
    by (simp add: upt_conv_Cons md5_step_def md5_K_def md5_s_def rotl32_def)
  have s40: "foldl (md5_step ?M) (900213370, 3481166043, 1522403740, 2313219223) [40..<48]
      = (180686360, 2442105787, 2320130902, 2043312197)"
    by (simp add: upt_conv_Cons md5_step_def md5_K_def md5_s_def rotl32_def)
  have s48: "foldl (md5_step ?M) (180686360, 2442105787, 2320130902, 2043312197) [48..<56]
      = (2553051233, 2301952448, 1912370953, 1746051938)"
    by (simp add: upt_conv_Cons md5_step_def md5_K_def md5_s_def rotl32_def)
  have s56: "foldl (md5_step ?M) (2553051233, 2301952448, 1912370953, 1746051938) [56..<64]
      = (1378917899, 3102295607, 1239344691, 1358177011)"
    by (simp add: upt_conv_Cons md5_step_def md5_K_def md5_s_def rotl32_def)
  have "[0..<64] = [0..<8] @ [8..<16] @ [16..<24] @ [24..<32] @ [32..<40] @ [40..<48] @ [48..<56] @ [56..<64]"
    by (rule upt_stages)
  then have b: "md5_block (0x67452301, 0xefcdab89, 0x98badcfe, 0x10325476) ?M
      = (3111502092, 2830561728, 3801727793, 1629910889)"
    by (simp only: md5_block_def foldl_append s0 s8 s16 s24 s32 s40 s48 s56) simp
  show ?thesis
    by (simp add: md5_hex_def md5_digest_def w b word_bytes_def upt_conv_Cons hex_byte_def
          hex_digit_def)
qed

lemma fingerprint_a: "generateLineHash ''a'' n = ''0cc175''"
  by (simp add: generateLineHash_def md5_hex_a)

lemma md5_hex_b: "md5_hex ''b'' = ''92eb5ffee6ae2fec3ad71c777531578f''"
proof -
  let ?M = "[32866, 0, 0, 0, 0, 0, 0, 0, 0, 0, 0, 0, 0, 0, 8, 0] :: u32 list"
  have w: "le_words (md5_pad [98]) = ?M"
    by (simp add: md5_pad_def le64_def upt_conv_Cons replicate_numeral_Cons)
  have s0: "foldl (md5_step ?M) (1732584193, 4023233417, 2562383102, 271733878) [0..<8]
      = (3121469328, 4285547169, 2279308136, 2758080780)"
    by (simp add: upt_conv_Cons md5_step_def md5_K_def md5_s_def rotl32_def)
  have s8: "foldl (md5_step ?M) (3121469328, 4285547169, 2279308136, 2758080780) [8..<16]
      = (3563052472, 984972523, 3835570010, 556889797)"
    by (simp add: upt_conv_Cons md5_step_def md5_K_def md5_s_def rotl32_def)
  have s16: "foldl (md5_step ?M) (3563052472, 984972523, 3835570010, 556889797) [16..<24]
      = (2445783334, 2852801256, 454136381, 3909120721)"
    by (simp add: upt_conv_Cons md5_step_def md5_K_def md5_s_def rotl32_def)
  have s24: "foldl (md5_step ?M) (2445783334, 2852801256, 454136381, 3909120721) [24..<32]
      = (3594561117, 2269456976, 2944485041, 873086993)"
    by (simp add: upt_conv_Cons md5_step_def md5_K_def md5_s_def rotl32_def)
  have s32: "foldl (md5_step ?M) (3594561117, 2269456976, 2944485041, 873086993) [32..<40]
      = (594403485, 4289201614, 4142980808, 2967670999)"
    by (simp add: upt_conv_Cons md5_step_def md5_K_def md5_s_def rotl32_def)
  have s40: "foldl (md5_step ?M) (594403485, 4289201614, 4142980808, 2967670999) [40..<48]
      = (1586081278, 118607564, 2339179796, 1569400107)"
    by (simp add: upt_conv_Cons md5_step_def md5_K_def md5_s_def rotl32_def)
  have s48: "foldl (md5_step ?M) (1586081278, 118607564, 2339179796, 1569400107) [48..<56]
      = (2801752569, 2420233769, 3638141419, 1545740890)"
    by (simp add: upt_conv_Cons md5_step_def md5_K_def md5_s_def rotl32_def)
  have s56: "foldl (md5_step ?M) (2801752569, 2420233769, 3638141419, 1545740890) [56..<64]
      = (2535114897, 4234281821, 3730963004, 2133122303)"
    by (simp add: upt_conv_Cons md5_step_def md5_K_def md5_s_def rotl32_def)
  have "[0..<64] = [0..<8] @ [8..<16] @ [16..<24] @ [24..<32] @ [32..<40] @ [40..<48] @ [48..<56] @ [56..<64]"
    by (rule upt_stages)
  then have b: "md5_block (0x67452301, 0xefcdab89, 0x98badcfe, 0x10325476) ?M
      = (4267699090, 3962547942, 1998378810, 2404856181)"
    by (simp only: md5_block_def foldl_append s0 s8 s16 s24 s32 s40 s48 s56) simp
  show ?thesis
    by (simp add: md5_hex_def md5_digest_def w b word_bytes_def upt_conv_Cons hex_byte_def
          hex_digit_def)
qed

lemma fingerprint_b: "generateLineHash ''b'' n = ''92eb5f''"
  by (simp add: generateLineHash_def md5_hex_b)

lemma md5_hex_c: "md5_hex ''c'' = ''4a8a08f09d37b73795649038408b5f33''"
proof -
  let ?M = "[32867, 0, 0, 0, 0, 0, 0, 0, 0, 0, 0, 0, 0, 0, 8, 0] :: u32 list"
  have w: "le_words (md5_pad [99]) = ?M"
    by (simp add: md5_pad_def le64_def upt_conv_Cons replicate_numeral_Cons)
  have s0: "foldl (md5_step ?M) (1732584193, 4023233417, 2562383102, 271733878) [0..<8]
      = (1118590987, 248312425, 3127854216, 3630392830)"
    by (simp add: upt_conv_Cons md5_step_def md5_K_def md5_s_def rotl32_def)
  have s8: "foldl (md5_step ?M) (1118590987, 248312425, 3127854216, 3630392830) [8..<16]
      = (3874517158, 4142606363, 3239706565, 1116145635)"
    by (simp add: upt_conv_Cons md5_step_def md5_K_def md5_s_def rotl32_def)
  have s16: "foldl (md5_step ?M) (3874517158, 4142606363, 3239706565, 1116145635) [16..<24]
      = (1017712565, 3504441529, 3879457071, 3324904760)"
    by (simp add: upt_conv_Cons md5_step_def md5_K_def md5_s_def rotl32_def)
  have s24: "foldl (md5_step ?M) (1017712565, 3504441529, 3879457071, 3324904760) [24..<32]
      = (312340886, 527561375, 2428082680, 1881826191)"
    by (simp add: upt_conv_Cons md5_step_def md5_K_def md5_s_def rotl32_def)
  have s32: "foldl (md5_step ?M) (312340886, 527561375, 2428082680, 1881826191) [32..<40]
      = (2772040951, 2282883915, 3309942105, 523015738)"
    by (simp add: upt_conv_Cons md5_step_def md5_K_def md5_s_def rotl32_def)
  have s40: "foldl (md5_step ?M) (2772040951, 2282883915, 3309942105, 523015738) [40..<48]
      = (2502521050, 1420960341, 2670986893, 2874203418)"
    by (simp add: upt_conv_Cons md5_step_def md5_K_def md5_s_def rotl32_def)
  have s48: "foldl (md5_step ?M) (2502521050, 1420960341, 2670986893, 2874203418) [48..<56]
      = (2849377013, 1809680475, 3651548210, 650270919)"
    by (simp add: upt_conv_Cons md5_step_def md5_K_def md5_s_def rotl32_def)
  have s56: "foldl (md5_step ?M) (2849377013, 1809680475, 3651548210, 650270919) [56..<64]
      = (2294507337, 1206488084, 2681571223, 590165706)"
    by (simp add: upt_conv_Cons md5_step_def md5_K_def md5_s_def rotl32_def)
  have "[0..<64] = [0..<8] @ [8..<16] @ [16..<24] @ [24..<32] @ [32..<40] @ [40..<48] @ [48..<56] @ [56..<64]"
    by (rule upt_stages)
  then have b: "md5_block (0x67452301, 0xefcdab89, 0x98badcfe, 0x10325476) ?M
      = (4027091530, 934754205, 948987029, 861899584)"
    by (simp only: md5_block_def foldl_append s0 s8 s16 s24 s32 s40 s48 s56) simp
  show ?thesis
    by (simp add: md5_hex_def md5_digest_def w b word_bytes_def upt_conv_Cons hex_byte_def
          hex_digit_def)
qed

lemma fingerprint_c: "generateLineHash ''c'' n = ''4a8a08''"
  by (simp add: generateLineHash_def md5_hex_c)

lemma md5_hex_d: "md5_hex ''d'' = ''8277e0910d750195b448797616e091ad''"
proof -
  let ?M = "[32868, 0, 0, 0, 0, 0, 0, 0, 0, 0, 0, 0, 0, 0, 8, 0] :: u32 list"
  have w: "le_words (md5_pad [100]) = ?M"
    by (simp add: md5_pad_def le64_def upt_conv_Cons replicate_numeral_Cons)
  have s0: "foldl (md5_step ?M) (1732584193, 4023233417, 2562383102, 271733878) [0..<8]
      = (3395280005, 3070276941, 1545985200, 1822886688)"
    by (simp add: upt_conv_Cons md5_step_def md5_K_def md5_s_def rotl32_def)
  have s8: "foldl (md5_step ?M) (3395280005, 3070276941, 1545985200, 1822886688) [8..<16]
      = (1820775310, 2264872471, 2392173044, 3916268573)"
    by (simp add: upt_conv_Cons md5_step_def md5_K_def md5_s_def rotl32_def)
  have s16: "foldl (md5_step ?M) (1820775310, 2264872471, 2392173044, 3916268573) [16..<24]
      = (986058596, 1709525798, 3176239529, 2453925509)"
    by (simp add: upt_conv_Cons md5_step_def md5_K_def md5_s_def rotl32_def)
  have s24: "foldl (md5_step ?M) (986058596, 1709525798, 3176239529, 2453925509) [24..<32]
      = (791772167, 2042143603, 2127974455, 1446477888)"
    by (simp add: upt_conv_Cons md5_step_def md5_K_def md5_s_def rotl32_def)
  have s32: "foldl (md5_step ?M) (791772167, 2042143603, 2127974455, 1446477888) [32..<40]
      = (2246246006, 479886366, 2542873797, 3213871148)"
    by (simp add: upt_conv_Cons md5_step_def md5_K_def md5_s_def rotl32_def)
  have s40: "foldl (md5_step ?M) (2246246006, 479886366, 2542873797, 3213871148) [40..<48]
      = (2551402587, 722996281, 3309184129, 665138674)"
    by (simp add: upt_conv_Cons md5_step_def md5_K_def md5_s_def rotl32_def)
  have s48: "foldl (md5_step ?M) (2551402587, 722996281, 3309184129, 665138674) [48..<56]
      = (1891708782, 4239932999, 1495850861, 1925819469)"
    by (simp add: upt_conv_Cons md5_step_def md5_K_def md5_s_def rotl32_def)
  have s56: "foldl (md5_step ?M) (1891708782, 4239932999, 1495850861, 1925819469) [56..<64]
      = (714822785, 2771634564, 3720244150, 2640284576)"
    by (simp add: upt_conv_Cons md5_step_def md5_K_def md5_s_def rotl32_def)
  have "[0..<64] = [0..<8] @ [8..<16] @ [16..<24] @ [24..<32] @ [32..<40] @ [40..<48] @ [48..<56] @ [56..<64]"
    by (rule upt_stages)
  then have b: "md5_block (0x67452301, 0xefcdab89, 0x98badcfe, 0x10325476) ?M
      = (2447406978, 2499900685, 1987659956, 2912018454)"
    by (simp only: md5_block_def foldl_append s0 s8 s16 s24 s32 s40 s48 s56) simp
  show ?thesis
    by (simp add: md5_hex_def md5_digest_def w b word_bytes_def upt_conv_Cons hex_byte_def
          hex_digit_def)
qed

lemma fingerprint_d: "generateLineHash ''d'' n = ''8277e0''"
  by (simp add: generateLineHash_def md5_hex_d)

lemma md5_hex_e: "md5_hex ''e'' = ''e1671797c52e15f763380b45e841ec32''"
proof -
  let ?M = "[32869, 0, 0, 0, 0, 0, 0, 0, 0, 0, 0, 0, 0, 0, 8, 0] :: u32 list"
  have w: "le_words (md5_pad [101]) = ?M"
    by (simp add: md5_pad_def le64_def upt_conv_Cons replicate_numeral_Cons)
  have s0: "foldl (md5_step ?M) (1732584193, 4023233417, 2562383102, 271733878) [0..<8]
      = (2327928075, 2038621916, 3910303098, 4043857662)"
    by (simp add: upt_conv_Cons md5_step_def md5_K_def md5_s_def rotl32_def)
  have s8: "foldl (md5_step ?M) (2327928075, 2038621916, 3910303098, 4043857662) [8..<16]
      = (3581664, 2332896250, 2076319639, 124610137)"
    by (simp add: upt_conv_Cons md5_step_def md5_K_def md5_s_def rotl32_def)
  have s16: "foldl (md5_step ?M) (3581664, 2332896250, 2076319639, 124610137) [16..<24]
      = (4283990560, 2355724966, 3397936443, 1961670311)"
    by (simp add: upt_conv_Cons md5_step_def md5_K_def md5_s_def rotl32_def)
  have s24: "foldl (md5_step ?M) (4283990560, 2355724966, 3397936443, 1961670311) [24..<32]
      = (1732162085, 2208332464, 3510621355, 3589594037)"
    by (simp add: upt_conv_Cons md5_step_def md5_K_def md5_s_def rotl32_def)
  have s32: "foldl (md5_step ?M) (1732162085, 2208332464, 3510621355, 3589594037) [32..<40]
      = (2805670840, 2884548696, 3695165949, 3018737418)"
    by (simp add: upt_conv_Cons md5_step_def md5_K_def md5_s_def rotl32_def)
  have s40: "foldl (md5_step ?M) (2805670840, 2884548696, 3695165949, 3018737418) [40..<48]
      = (509256579, 2678164597, 1881937740, 2203533094)"
    by (simp add: upt_conv_Cons md5_step_def md5_K_def md5_s_def rotl32_def)
  have s48: "foldl (md5_step ?M) (509256579, 2678164597, 1881937740, 2203533094) [48..<56]
      = (4112376793, 546762410, 2992603126, 3733243131)"
    by (simp add: upt_conv_Cons md5_step_def md5_K_def md5_s_def rotl32_def)
  have s56: "foldl (md5_step ?M) (4112376793, 546762410, 2992603126, 3733243131) [56..<64]
      = (802309344, 122127164, 2890947429, 582610290)"
    by (simp add: upt_conv_Cons md5_step_def md5_K_def md5_s_def rotl32_def)
  have "[0..<64] = [0..<8] @ [8..<16] @ [16..<24] @ [24..<32] @ [32..<40] @ [40..<48] @ [48..<56] @ [56..<64]"
    by (rule upt_stages)
  then have b: "md5_block (0x67452301, 0xefcdab89, 0x98badcfe, 0x10325476) ?M
      = (2534893537, 4145360581, 1158363235, 854344168)"
    by (simp only: md5_block_def foldl_append s0 s8 s16 s24 s32 s40 s48 s56) simp
  show ?thesis
    by (simp add: md5_hex_def md5_digest_def w b word_bytes_def upt_conv_Cons hex_byte_def
          hex_digit_def)
qed

lemma fingerprint_e: "generateLineHash ''e'' n = ''e16717''"
  by (simp add: generateLineHash_def md5_hex_e)

lemma md5_hex_f: "md5_hex ''f'' = ''8fa14cdd754f91cc6554c9e71929cce7''"
proof -
  let ?M = "[32870, 0, 0, 0, 0, 0, 0, 0, 0, 0, 0, 0, 0, 0, 8, 0] :: u32 list"
  have w: "le_words (md5_pad [102]) = ?M"
    by (simp add: md5_pad_def le64_def upt_conv_Cons replicate_numeral_Cons)
  have s0: "foldl (md5_step ?M) (1732584193, 4023233417, 2562383102, 271733878) [0..<8]
      = (273521220, 1937858084, 683577459, 2990587173)"
    by (simp add: upt_conv_Cons md5_step_def md5_K_def md5_s_def rotl32_def)
  have s8: "foldl (md5_step ?M) (273521220, 1937858084, 683577459, 2990587173) [8..<16]
      = (79816630, 1347173418, 517665021, 2447459051)"
    by (simp add: upt_conv_Cons md5_step_def md5_K_def md5_s_def rotl32_def)
  have s16: "foldl (md5_step ?M) (79816630, 1347173418, 517665021, 2447459051) [16..<24]
      = (1843839693, 2108590254, 2504172871, 2551029480)"
    by (simp add: upt_conv_Cons md5_step_def md5_K_def md5_s_def rotl32_def)
  have s24: "foldl (md5_step ?M) (1843839693, 2108590254, 2504172871, 2551029480) [24..<32]
      = (1495379057, 1720688779, 1812622572, 1017910051)"
    by (simp add: upt_conv_Cons md5_step_def md5_K_def md5_s_def rotl32_def)
  have s32: "foldl (md5_step ?M) (1495379057, 1720688779, 1812622572, 1017910051) [32..<40]
      = (2495227236, 4061271421, 335404752, 4200364615)"
    by (simp add: upt_conv_Cons md5_step_def md5_K_def md5_s_def rotl32_def)
  have s40: "foldl (md5_step ?M) (2495227236, 4061271421, 335404752, 4200364615) [40..<48]
      = (3667924588, 4089805144, 2320398120, 2097260291)"
    by (simp add: upt_conv_Cons md5_step_def md5_K_def md5_s_def rotl32_def)
  have s48: "foldl (md5_step ?M) (3667924588, 4089805144, 2320398120, 2097260291) [48..<56]
      = (318222264, 801483477, 1710980499, 3306406944)"
    by (simp add: upt_conv_Cons md5_step_def md5_K_def md5_s_def rotl32_def)
  have s56: "foldl (md5_step ?M) (318222264, 801483477, 1710980499, 3306406944) [56..<64]
      = (1980202638, 3703809004, 1326348135, 3617182883)"
    by (simp add: upt_conv_Cons md5_step_def md5_K_def md5_s_def rotl32_def)
  have "[0..<64] = [0..<8] @ [8..<16] @ [16..<24] @ [24..<32] @ [32..<40] @ [40..<48] @ [48..<56] @ [56..<64]"
    by (rule upt_stages)
  then have b: "md5_block (0x67452301, 0xefcdab89, 0x98badcfe, 0x10325476) ?M
      = (3712786831, 3432075125, 3888731237, 3888916761)"
    by (simp only: md5_block_def foldl_append s0 s8 s16 s24 s32 s40 s48 s56) simp
  show ?thesis
    by (simp add: md5_hex_def md5_digest_def w b word_bytes_def upt_conv_Cons hex_byte_def
          hex_digit_def)
qed

lemma fingerprint_f: "generateLineHash ''f'' n = ''8fa14c''"
  by (simp add: generateLineHash_def md5_hex_f)

lemma md5_hex_g: "md5_hex ''g'' = ''b2f5ff47436671b6e533d8dc3614845d''"
proof -
  let ?M = "[32871, 0, 0, 0, 0, 0, 0, 0, 0, 0, 0, 0, 0, 0, 8, 0] :: u32 list"
  have w: "le_words (md5_pad [103]) = ?M"
    by (simp add: md5_pad_def le64_def upt_conv_Cons replicate_numeral_Cons)
  have s0: "foldl (md5_step ?M) (1732584193, 4023233417, 2562383102, 271733878) [0..<8]
      = (1389124557, 2954016938, 3947698249, 3904862654)"
    by (simp add: upt_conv_Cons md5_step_def md5_K_def md5_s_def rotl32_def)
  have s8: "foldl (md5_step ?M) (1389124557, 2954016938, 3947698249, 3904862654) [8..<16]
      = (4228230342, 697424849, 3023952216, 1572791078)"
    by (simp add: upt_conv_Cons md5_step_def md5_K_def md5_s_def rotl32_def)
  have s16: "foldl (md5_step ?M) (4228230342, 697424849, 3023952216, 1572791078) [16..<24]
      = (3694299558, 2978611758, 3255199109, 4163191995)"
    by (simp add: upt_conv_Cons md5_step_def md5_K_def md5_s_def rotl32_def)
  have s24: "foldl (md5_step ?M) (3694299558, 2978611758, 3255199109, 4163191995) [24..<32]
      = (2097647397, 3913524457, 2045812190, 517899367)"
    by (simp add: upt_conv_Cons md5_step_def md5_K_def md5_s_def rotl32_def)
  have s32: "foldl (md5_step ?M) (2097647397, 3913524457, 2045812190, 517899367) [32..<40]
      = (2491913175, 2504586362, 555332323, 2314505566)"
    by (simp add: upt_conv_Cons md5_step_def md5_K_def md5_s_def rotl32_def)
  have s40: "foldl (md5_step ?M) (2491913175, 2504586362, 555332323, 2314505566) [40..<48]
      = (3389667244, 4184815882, 1534323419, 2438190115)"
    by (simp add: upt_conv_Cons md5_step_def md5_K_def md5_s_def rotl32_def)
  have s48: "foldl (md5_step ?M) (3389667244, 4184815882, 1534323419, 2438190115) [48..<56]
      = (651879064, 1748552283, 557484441, 363492810)"
    by (simp add: upt_conv_Cons md5_step_def md5_K_def md5_s_def rotl32_def)
  have s56: "foldl (md5_step ?M) (651879064, 1748552283, 557484441, 363492810) [56..<64]
      = (3770340017, 3332618938, 1142773479, 1297203136)"
    by (simp add: upt_conv_Cons md5_step_def md5_K_def md5_s_def rotl32_def)
  have "[0..<64] = [0..<8] @ [8..<16] @ [16..<24] @ [24..<32] @ [32..<40] @ [40..<48] @ [48..<56] @ [56..<64]"
    by (rule upt_stages)
  then have b: "md5_block (0x67452301, 0xefcdab89, 0x98badcfe, 0x10325476) ?M
      = (1207956914, 3060885059, 3705156581, 1568937014)"
    by (simp only: md5_block_def foldl_append s0 s8 s16 s24 s32 s40 s48 s56) simp
  show ?thesis
    by (simp add: md5_hex_def md5_digest_def w b word_bytes_def upt_conv_Cons hex_byte_def
          hex_digit_def)
qed

lemma fingerprint_g: "generateLineHash ''g'' n = ''b2f5ff''"
  by (simp add: generateLineHash_def md5_hex_g)

lemma md5_hex_h: "md5_hex ''h'' = ''2510c39011c5be704182423e3a695e91''"
proof -
  let ?M = "[32872, 0, 0, 0, 0, 0, 0, 0, 0, 0, 0, 0, 0, 0, 8, 0] :: u32 list"
  have w: "le_words (md5_pad [104]) = ?M"
    by (simp add: md5_pad_def le64_def upt_conv_Cons replicate_numeral_Cons)
  have s0: "foldl (md5_step ?M) (1732584193, 4023233417, 2562383102, 271733878) [0..<8]
      = (2585862215, 3740535557, 1773673935, 78924780)"
    by (simp add: upt_conv_Cons md5_step_def md5_K_def md5_s_def rotl32_def)
  have s8: "foldl (md5_step ?M) (2585862215, 3740535557, 1773673935, 78924780) [8..<16]
      = (645448811, 4162667654, 2974651531, 2544164442)"
    by (simp add: upt_conv_Cons md5_step_def md5_K_def md5_s_def rotl32_def)
  have s16: "foldl (md5_step ?M) (645448811, 4162667654, 2974651531, 2544164442) [16..<24]
      = (426011658, 1987751594, 2925489427, 732402806)"
    by (simp add: upt_conv_Cons md5_step_def md5_K_def md5_s_def rotl32_def)
  have s24: "foldl (md5_step ?M) (426011658, 1987751594, 2925489427, 732402806) [24..<32]
      = (2072431185, 1688432301, 1196782629, 662257942)"
    by (simp add: upt_conv_Cons md5_step_def md5_K_def md5_s_def rotl32_def)
  have s32: "foldl (md5_step ?M) (2072431185, 1688432301, 1196782629, 662257942) [32..<40]
      = (2672379237, 2704638750, 1164437400, 3095166269)"
    by (simp add: upt_conv_Cons md5_step_def md5_K_def md5_s_def rotl32_def)
  have s40: "foldl (md5_step ?M) (2672379237, 2704638750, 1164437400, 3095166269) [40..<48]
      = (1270483091, 3949591778, 1550396662, 3214593185)"
    by (simp add: upt_conv_Cons md5_step_def md5_K_def md5_s_def rotl32_def)
  have s48: "foldl (md5_step ?M) (1270483091, 3949591778, 1550396662, 3214593185) [48..<56]
      = (4020238778, 876400586, 3276543309, 684044792)"
    by (simp add: upt_conv_Cons md5_step_def md5_K_def md5_s_def rotl32_def)
  have s56: "foldl (md5_step ?M) (4020238778, 876400586, 3276543309, 684044792) [56..<64]
      = (696118564, 2163284360, 2777130307, 2167149764)"
    by (simp add: upt_conv_Cons md5_step_def md5_K_def md5_s_def rotl32_def)
  have "[0..<64] = [0..<8] @ [8..<16] @ [16..<24] @ [24..<32] @ [32..<40] @ [40..<48] @ [48..<56] @ [56..<64]"
    by (rule upt_stages)
  then have b: "md5_block (0x67452301, 0xefcdab89, 0x98badcfe, 0x10325476) ?M
      = (2428702757, 1891550481, 1044546113, 2438883642)"
    by (simp only: md5_block_def foldl_append s0 s8 s16 s24 s32 s40 s48 s56) simp
  show ?thesis
    by (simp add: md5_hex_def md5_digest_def w b word_bytes_def upt_conv_Cons hex_byte_def
          hex_digit_def)
qed

lemma fingerprint_h: "generateLineHash ''h'' n = ''2510c3''"
  by (simp add: generateLineHash_def md5_hex_h)

lemma md5_hex_i: "md5_hex ''i'' = ''865c0c0b4ab0e063e5caa3387c1a8741''"
proof -
  let ?M = "[32873, 0, 0, 0, 0, 0, 0, 0, 0, 0, 0, 0, 0, 0, 8, 0] :: u32 list"
  have w: "le_words (md5_pad [105]) = ?M"
    by (simp add: md5_pad_def le64_def upt_conv_Cons replicate_numeral_Cons)
  have s0: "foldl (md5_step ?M) (1732584193, 4023233417, 2562383102, 271733878) [0..<8]
      = (2598494414, 3347100693, 1921448391, 159713987)"
    by (simp add: upt_conv_Cons md5_step_def md5_K_def md5_s_def rotl32_def)
  have s8: "foldl (md5_step ?M) (2598494414, 3347100693, 1921448391, 159713987) [8..<16]
      = (1923429118, 1044422286, 3666448795, 2762656994)"
    by (simp add: upt_conv_Cons md5_step_def md5_K_def md5_s_def rotl32_def)
  have s16: "foldl (md5_step ?M) (1923429118, 1044422286, 3666448795, 2762656994) [16..<24]
      = (3279243719, 4261115433, 1468609035, 1806667344)"
    by (simp add: upt_conv_Cons md5_step_def md5_K_def md5_s_def rotl32_def)
  have s24: "foldl (md5_step ?M) (3279243719, 4261115433, 1468609035, 1806667344) [24..<32]
      = (3339054888, 83678408, 1988098866, 1496044242)"
    by (simp add: upt_conv_Cons md5_step_def md5_K_def md5_s_def rotl32_def)
  have s32: "foldl (md5_step ?M) (3339054888, 83678408, 1988098866, 1496044242) [32..<40]
      = (2691426349, 681858061, 2871667851, 3645073939)"
    by (simp add: upt_conv_Cons md5_step_def md5_K_def md5_s_def rotl32_def)
  have s40: "foldl (md5_step ?M) (2691426349, 681858061, 2871667851, 3645073939) [40..<48]
      = (4188254366, 2719106016, 1406629067, 2174283351)"
    by (simp add: upt_conv_Cons md5_step_def md5_K_def md5_s_def rotl32_def)
  have s48: "foldl (md5_step ?M) (4188254366, 2719106016, 1406629067, 2174283351) [48..<56]
      = (3968424493, 4235030982, 1802542434, 1640351722)"
    by (simp add: upt_conv_Cons md5_step_def md5_K_def md5_s_def rotl32_def)
  have s56: "foldl (md5_step ?M) (3968424493, 4235030982, 1802542434, 1640351722) [56..<64]
      = (2747742597, 1947403457, 2682842599, 827639302)"
    by (simp add: upt_conv_Cons md5_step_def md5_K_def md5_s_def rotl32_def)
  have "[0..<64] = [0..<8] @ [8..<16] @ [16..<24] @ [24..<32] @ [32..<40] @ [40..<48] @ [48..<56] @ [56..<64]"
    by (rule upt_stages)
  then have b: "md5_block (0x67452301, 0xefcdab89, 0x98badcfe, 0x10325476) ?M
      = (185359494, 1675669578, 950258405, 1099373180)"
    by (simp only: md5_block_def foldl_append s0 s8 s16 s24 s32 s40 s48 s56) simp
  show ?thesis
    by (simp add: md5_hex_def md5_digest_def w b word_bytes_def upt_conv_Cons hex_byte_def
          hex_digit_def)
qed

lemma fingerprint_i: "generateLineHash ''i'' n = ''865c0c''"
  by (simp add: generateLineHash_def md5_hex_i)

lemma md5_hex_line_1049: "md5_hex ''line 1049'' = ''c03cf505cb585d431c57d76ef6f047a4''"
proof -
  let ?M = "[1701734764, 875573536, 32825, 0, 0, 0, 0, 0, 0, 0, 0, 0, 0, 0, 72, 0] :: u32 list"
  have w: "le_words (md5_pad [108, 105, 110, 101, 32, 49, 48, 52, 57]) = ?M"
    by (simp add: md5_pad_def le64_def upt_conv_Cons replicate_numeral_Cons)
  have s0: "foldl (md5_step ?M) (1732584193, 4023233417, 2562383102, 271733878) [0..<8]
      = (3112928302, 68089679, 763649820, 789352153)"
    by (simp add: upt_conv_Cons md5_step_def md5_K_def md5_s_def rotl32_def)
  have s8: "foldl (md5_step ?M) (3112928302, 68089679, 763649820, 789352153) [8..<16]
      = (144295753, 3099781446, 4020084019, 1444153319)"
    by (simp add: upt_conv_Cons md5_step_def md5_K_def md5_s_def rotl32_def)
  have s16: "foldl (md5_step ?M) (144295753, 3099781446, 4020084019, 1444153319) [16..<24]
      = (3036745988, 3320162599, 3918119635, 3632886355)"
    by (simp add: upt_conv_Cons md5_step_def md5_K_def md5_s_def rotl32_def)
  have s24: "foldl (md5_step ?M) (3036745988, 3320162599, 3918119635, 3632886355) [24..<32]
      = (1545793250, 3320980056, 45169550, 3733221845)"
    by (simp add: upt_conv_Cons md5_step_def md5_K_def md5_s_def rotl32_def)
  have s32: "foldl (md5_step ?M) (1545793250, 3320980056, 45169550, 3733221845) [32..<40]
      = (2395105636, 3373129906, 1509777811, 2193726200)"
    by (simp add: upt_conv_Cons md5_step_def md5_K_def md5_s_def rotl32_def)
  have s40: "foldl (md5_step ?M) (2395105636, 3373129906, 1509777811, 2193726200) [40..<48]
      = (873890954, 455841980, 1260991073, 419421232)"
    by (simp add: upt_conv_Cons md5_step_def md5_K_def md5_s_def rotl32_def)
  have s48: "foldl (md5_step ?M) (873890954, 455841980, 1260991073, 419421232) [48..<56]
      = (2543668366, 3671641591, 2377375916, 3954344622)"
    by (simp add: upt_conv_Cons md5_step_def md5_K_def md5_s_def rotl32_def)
  have s56: "foldl (md5_step ?M) (2543668366, 3671641591, 2377375916, 3954344622) [56..<64]
      = (2662341055, 1401924930, 3592190494, 2484444288)"
    by (simp add: upt_conv_Cons md5_step_def md5_K_def md5_s_def rotl32_def)
  have "[0..<64] = [0..<8] @ [8..<16] @ [16..<24] @ [24..<32] @ [32..<40] @ [40..<48] @ [48..<56] @ [56..<64]"
    by (rule upt_stages)
  then have b: "md5_block (0x67452301, 0xefcdab89, 0x98badcfe, 0x10325476) ?M
      = (99957952, 1130191051, 1859606300, 2756178166)"
    by (simp only: md5_block_def foldl_append s0 s8 s16 s24 s32 s40 s48 s56) simp
  show ?thesis
    by (simp add: md5_hex_def md5_digest_def w b word_bytes_def upt_conv_Cons hex_byte_def
          hex_digit_def)
qed

lemma fingerprint_line_1049: "generateLineHash ''line 1049'' n = ''c03cf5''"
  by (simp add: generateLineHash_def md5_hex_line_1049)

lemma md5_hex_line_1250: "md5_hex ''line 1250'' = ''c03cf57395fe7548f599a9a89300a7f7''"
proof -
  let ?M = "[1701734764, 892481824, 32816, 0, 0, 0, 0, 0, 0, 0, 0, 0, 0, 0, 72, 0] :: u32 list"
  have w: "le_words (md5_pad [108, 105, 110, 101, 32, 49, 50, 53, 48]) = ?M"
    by (simp add: md5_pad_def le64_def upt_conv_Cons replicate_numeral_Cons)
  have s0: "foldl (md5_step ?M) (1732584193, 4023233417, 2562383102, 271733878) [0..<8]
      = (3498756266, 3078041480, 828225395, 713922644)"
    by (simp add: upt_conv_Cons md5_step_def md5_K_def md5_s_def rotl32_def)
  have s8: "foldl (md5_step ?M) (3498756266, 3078041480, 828225395, 713922644) [8..<16]
      = (2193462374, 2457346999, 609637783, 2205236092)"
    by (simp add: upt_conv_Cons md5_step_def md5_K_def md5_s_def rotl32_def)
  have s16: "foldl (md5_step ?M) (2193462374, 2457346999, 609637783, 2205236092) [16..<24]
      = (915757691, 734548744, 1760101262, 4258977412)"
    by (simp add: upt_conv_Cons md5_step_def md5_K_def md5_s_def rotl32_def)
  have s24: "foldl (md5_step ?M) (915757691, 734548744, 1760101262, 4258977412) [24..<32]
      = (2672041947, 3139152723, 1263077678, 3250428350)"
    by (simp add: upt_conv_Cons md5_step_def md5_K_def md5_s_def rotl32_def)
  have s32: "foldl (md5_step ?M) (2672041947, 3139152723, 1263077678, 3250428350) [32..<40]
      = (3744289736, 1719011271, 3219175312, 3407312212)"
    by (simp add: upt_conv_Cons md5_step_def md5_K_def md5_s_def rotl32_def)
  have s40: "foldl (md5_step ?M) (3744289736, 1719011271, 3219175312, 3407312212) [40..<48]
      = (2435538066, 3505521063, 3199271666, 1899386957)"
    by (simp add: upt_conv_Cons md5_step_def md5_K_def md5_s_def rotl32_def)
  have s48: "foldl (md5_step ?M) (2435538066, 3505521063, 3199271666, 1899386957) [48..<56]
      = (711771856, 2350329725, 1264243928, 440770694)"
    by (simp add: upt_conv_Cons md5_step_def md5_K_def md5_s_def rotl32_def)
  have s56: "foldl (md5_step ?M) (711771856, 2350329725, 1264243928, 440770694) [56..<64]
      = (212867519, 1487426316, 267304183, 3883183133)"
    by (simp add: upt_conv_Cons md5_step_def md5_K_def md5_s_def rotl32_def)
  have "[0..<64] = [0..<8] @ [8..<16] @ [16..<24] @ [24..<32] @ [32..<40] @ [40..<48] @ [48..<56] @ [56..<64]"
    by (rule upt_stages)
  then have b: "md5_block (0x67452301, 0xefcdab89, 0x98badcfe, 0x10325476) ?M
      = (1945451712, 1215692437, 2829687285, 4154917011)"
    by (simp only: md5_block_def foldl_append s0 s8 s16 s24 s32 s40 s48 s56) simp
  show ?thesis
    by (simp add: md5_hex_def md5_digest_def w b word_bytes_def upt_conv_Cons hex_byte_def
          hex_digit_def)
qed

lemma fingerprint_line_1250: "generateLineHash ''line 1250'' n = ''c03cf5''"
  by (simp add: generateLineHash_def md5_hex_line_1250)

section \<open>Shift tolerance\<close>

lemma resolve_window_unique:
  assumes "idx lnum \<noteq> Some h" and "lnum \<notin> ms"
    and "{i. max 1 (lnum - 10) \<le> i \<and> i \<le> min (int (length ls)) (lnum + 10) \<and> idx i = Some h} = {c}"
  shows "resolveLineHash \<lparr>lineNumber = lnum, hash = h\<rparr> ls idx ms = Inr c"
proof -
  from assms(3) have "candidates idx h (max 1 (lnum - 10)) (min (int (length ls)) (lnum + 10)) = [c]"
    by (rule candidates_single)
  with assms(1,2) show ?thesis by (simp add: resolveLineHash_def Let_def)
qed

lemma fingerprint_index_eq:
  assumes "distinct (map (\<lambda>l. generateLineHash l 0) ls)" and "i < length ls" and "j < length ls"
  shows "generateLineHash (ls ! i) a = generateLineHash (ls ! j) b \<longleftrightarrow> i = j"
proof -
  have "generateLineHash (ls ! i) a = generateLineHash (ls ! j) b
          \<longleftrightarrow> map (\<lambda>l. generateLineHash l 0) ls ! i = map (\<lambda>l. generateLineHash l 0) ls ! j"
    using assms(2,3) by (simp add: generateLineHash_def)
  also have "\<dots> \<longleftrightarrow> i = j"
    using assms by (intro nth_eq_iff_index_eq) simp_all
  finally show ?thesis .
qed

lemma nth_without_fifth:
  assumes "5 \<le> length ls" and "j < length ls - 1"
  shows "(take 4 ls @ drop 5 ls) ! j = (if j < 4 then ls ! j else ls ! (j + 1))"
  using assms by (auto simp: nth_append min_def)

text \<open>
  Claim C7, as amended. For every file of at least nine lines whose lines have pairwise
  distinct fingerprints, after a \<^verbatim>\<open>delete_line\<close> whose reference resolves to line 5 has
  removed that line, the reference \<open>(8, fingerprint of the original line 8)\<close> resolves to
  line 7. Distinct fingerprints replace distinct texts: two different texts can share the six
  hexadecimal characters.
\<close>

theorem shift_tolerance:
  assumes "split_lines buffer = ls"
    and "9 \<le> length ls"
    and "distinct (map (\<lambda>l. generateLineHash l 0) ls)"
    and "parseLineHash lineHash = Some ref"
    and "resolveLineHash ref (lines (initialState buffer)) (hashIndex (initialState buffer))
           (modifiedLines (initialState buffer)) = Inr 5"
  shows "\<exists>st'. applyEdit (initialState buffer) (delete_line lineHash) = Inr st'
           \<and> lines st' = take 4 ls @ drop 5 ls
           \<and> resolveLineHash \<lparr>lineNumber = 8, hash = generateLineHash (ls ! 7) 8\<rparr>
                (lines st') (hashIndex st') (modifiedLines st') = Inr 7"
proof -
  let ?st0 = "initialState buffer"
  let ?ls' = "take 4 ls @ drop 5 ls"
  let ?st' = "rebuilt ?st0 ?ls' 5 10"
  let ?h = "generateLineHash (ls ! 7) 8"
  have l0: "lines ?st0 = ls" using assms(1) by (simp add: initialState_def)
  have sp: "js_splice ls (5 - 1) 1 = ?ls'"
    using assms(2) by (simp add: js_splice_remove)
  have del: "applyEdit ?st0 (delete_line lineHash) = Inr ?st'"
    using assms(2,4,5) sp by (simp add: l0)
  have len': "length ?ls' = length ls - 1" using assms(2) by simp
  have ix: "hashIndex ?st' i = Some (generateLineHash (?ls' ! nat (i - 1)) i)"
    if "1 \<le> i" and "i \<le> int (length ls) - 1" for i
    using that assms(2) by (simp add: hashIndex_rebuilt rebuildIndex_apply)
  have hit: "hashIndex ?st' i = Some ?h \<longleftrightarrow> i = 7"
    if i: "1 \<le> i" "i \<le> int (length ls) - 1" for i
  proof -
    let ?j = "nat (i - 1)"
    from i have j: "?j < length ls - 1" by linarith
    have "hashIndex ?st' i = Some ?h
            \<longleftrightarrow> generateLineHash (?ls' ! ?j) i = generateLineHash (ls ! 7) 8"
      by (simp only: ix [OF i] option.inject)
    also have "\<dots> \<longleftrightarrow> (if ?j < 4 then ?j else ?j + 1) = 7"
      using assms(2,3) j
      by (simp add: nth_without_fifth fingerprint_index_eq)
    also have "\<dots> \<longleftrightarrow> i = 7" using i by (auto split: if_splits)
    finally show ?thesis .
  qed
  have ne: "hashIndex ?st' 8 \<noteq> Some ?h"
    using hit [of 8] assms(2) by simp
  have near: "{i. max 1 (8 - 10) \<le> i \<and> i \<le> min (int (length ?ls')) (8 + 10)
                \<and> hashIndex ?st' i = Some ?h} = {7}"
  proof (intro equalityI subsetI)
    fix i assume "i \<in> {i. max 1 (8 - 10) \<le> i \<and> i \<le> min (int (length ?ls')) (8 + 10)
                \<and> hashIndex ?st' i = Some ?h}"
    then have r: "1 \<le> i" "i \<le> int (length ls) - 1" and e: "hashIndex ?st' i = Some ?h"
      using assms(2) by (simp_all add: min_def split: if_splits)
    from hit [OF r] e show "i \<in> {7}" by simp
  next
    fix i :: int assume "i \<in> {7}"
    then have i7: "i = 7" by simp
    with assms(2) have r: "1 \<le> i" "i \<le> int (length ls) - 1" by simp_all
    from hit [OF r] i7 have "hashIndex ?st' i = Some ?h" by simp
    with i7 assms(2) show "i \<in> {i. max 1 (8 - 10) \<le> i \<and> i \<le> min (int (length ?ls')) (8 + 10)
                \<and> hashIndex ?st' i = Some ?h}"
      by (simp add: min_def)
  qed
  have "resolveLineHash \<lparr>lineNumber = 8, hash = ?h\<rparr> ?ls' (hashIndex ?st') {} = Inr 7"
    using ne _ near by (rule resolve_window_unique) simp
  then have "resolveLineHash \<lparr>lineNumber = 8, hash = ?h\<rparr>
               (lines ?st') (hashIndex ?st') (modifiedLines ?st') = Inr 7"
    by (simp add: lines_rebuilt modifiedLines_rebuilt)
  with del show ?thesis by (intro exI [of _ ?st']) (simp add: lines_rebuilt)
qed

lemmas fingerprints =
  fingerprint_a fingerprint_b fingerprint_c fingerprint_d fingerprint_e fingerprint_f
  fingerprint_g fingerprint_h fingerprint_i fingerprint_line_1049 fingerprint_line_1250

lemma parse_5e: "parseLineHash ''5:e16717'' = Some \<lparr>lineNumber = 5, hash = ''e16717''\<rparr>"
  using parseLineHash_token [of "''5''" "''e16717''"]
  by (simp add: isDigit_def isHexAnyCase_def parseInt10_def)

lemma resolve_exact:
  "idx lnum = Some h \<Longrightarrow> resolveLineHash \<lparr>lineNumber = lnum, hash = h\<rparr> ls idx ms = Inr lnum"
  by (simp add: resolveLineHash_def)

lemma hashIndex_initial:
  "hashIndex (initialState buffer) = rebuildIndex Map.empty (split_lines buffer)"
  and lines_initial: "lines (initialState buffer) = split_lines buffer"
  and modifiedLines_initial: "modifiedLines (initialState buffer) = {}"
  by (simp_all add: initialState_def)

theorem shift_tolerance_witness:
  "split_lines (join_lines [''a'', ''b'', ''c'', ''d'', ''e'', ''f'', ''g'', ''h'', ''i''])
     = [''a'', ''b'', ''c'', ''d'', ''e'', ''f'', ''g'', ''h'', ''i'']
   \<and> distinct (map (\<lambda>l. generateLineHash l 0)
                 [''a'', ''b'', ''c'', ''d'', ''e'', ''f'', ''g'', ''h'', ''i''])
   \<and> (\<exists>st'. applyEdit
               (initialState (join_lines [''a'', ''b'', ''c'', ''d'', ''e'', ''f'', ''g'', ''h'', ''i'']))
               (delete_line ''5:e16717'') = Inr st'
           \<and> lines st' = [''a'', ''b'', ''c'', ''d'', ''f'', ''g'', ''h'', ''i'']
           \<and> resolveLineHash \<lparr>lineNumber = 8, hash = ''2510c3''\<rparr>
                (lines st') (hashIndex st') (modifiedLines st') = Inr 7)"
proof -
  let ?ls = "[''a'', ''b'', ''c'', ''d'', ''e'', ''f'', ''g'', ''h'', ''i'']"
  let ?b = "join_lines ?ls"
  have sp: "split_lines ?b = ?ls" by simp
  have len: "9 \<le> length ?ls" by simp
  have dis: "distinct (map (\<lambda>l. generateLineHash l 0) ?ls)" by (simp add: fingerprints)
  have "hashIndex (initialState ?b) 5 = Some ''e16717''"
    by (simp only: hashIndex_initial sp rebuildIndex_apply) (simp add: fingerprints)
  then have "resolveLineHash \<lparr>lineNumber = 5, hash = ''e16717''\<rparr>
          (lines (initialState ?b)) (hashIndex (initialState ?b)) (modifiedLines (initialState ?b))
        = Inr 5"
    by (rule resolve_exact)
  from shift_tolerance [OF sp len dis parse_5e this] sp dis show ?thesis
    by (simp add: fingerprints)
qed

lemma upto_1_8: "[1..8] = [1, 2, 3, 4, 5, 6, 7, 8 :: int]"
  by (simp add: upto_rec1)

lemma collision_after_delete:
  assumes sp: "split_lines buffer
                 = [''a'', ''line 1049'', ''c'', ''d'', ''e'', ''f'', ''g'', ''line 1250'', ''i'']"
  shows "applyEdit (initialState buffer) (delete_line ''5:e16717'')
           = Inr (rebuilt (initialState buffer)
                    [''a'', ''line 1049'', ''c'', ''d'', ''f'', ''g'', ''line 1250'', ''i''] 5 10)"
    and "resolveLineHash \<lparr>lineNumber = 8, hash = ''c03cf5''\<rparr>
           [''a'', ''line 1049'', ''c'', ''d'', ''f'', ''g'', ''line 1250'', ''i'']
           (hashIndex (rebuilt (initialState buffer)
                    [''a'', ''line 1049'', ''c'', ''d'', ''f'', ''g'', ''line 1250'', ''i''] 5 10))
           {}
         = Inl (AmbiguousNearby 8 ''c03cf5'' [2, 7])"
proof -
  let ?ls = "[''a'', ''line 1049'', ''c'', ''d'', ''e'', ''f'', ''g'', ''line 1250'', ''i'']"
  let ?ls' = "[''a'', ''line 1049'', ''c'', ''d'', ''f'', ''g'', ''line 1250'', ''i'']"
  let ?st' = "rebuilt (initialState buffer) ?ls' 5 10"
  have "hashIndex (initialState buffer) 5 = Some ''e16717''"
    by (simp only: hashIndex_initial sp rebuildIndex_apply) (simp add: fingerprints)
  then have r5: "resolveLineHash \<lparr>lineNumber = 5, hash = ''e16717''\<rparr>
          (lines (initialState buffer)) (hashIndex (initialState buffer))
          (modifiedLines (initialState buffer)) = Inr 5"
    by (rule resolve_exact)
  have cut: "js_splice ?ls 4 1 = ?ls'"
    by (simp add: js_splice_def js_index_def)
  show "applyEdit (initialState buffer) (delete_line ''5:e16717'') = Inr ?st'"
    by (simp only: applyEdit.simps parse_5e option.case r5 sum.case)
       (simp add: lines_initial sp cut)
  have ix: "hashIndex ?st' i
              = (if 1 \<le> i \<and> i \<le> 8 then Some (generateLineHash (?ls' ! nat (i - 1)) i)
                 else hashIndex (initialState buffer) i)" for i
    by (simp only: hashIndex_rebuilt rebuildIndex_apply) simp
  have c: "candidates (hashIndex ?st') ''c03cf5'' 1 8 = [2, 7]"
    by (simp add: candidates_def upto_1_8 ix fingerprints)
  show "resolveLineHash \<lparr>lineNumber = 8, hash = ''c03cf5''\<rparr> ?ls' (hashIndex ?st') {}
          = Inl (AmbiguousNearby 8 ''c03cf5'' [2, 7])"
    by (simp add: resolveLineHash_def c) (simp add: ix fingerprints)
qed

text \<open>
  Claim C7 as stated fails on a file of nine pairwise distinct lines in which lines 2 and 8,
  \<^verbatim>\<open>line 1049\<close> and \<^verbatim>\<open>line 1250\<close>, share the fingerprint \<^verbatim>\<open>c03cf5\<close>: after line 5 is
  deleted, the reference to the original line 8 has two hits in its window, at lines 2 and 7,
  and resolution fails with the ambiguity error instead of returning line 7.
\<close>

theorem shift_tolerance_counterexample:
  "distinct [''a'', ''line 1049'', ''c'', ''d'', ''e'', ''f'', ''g'', ''line 1250'', ''i'']
   \<and> split_lines
        (join_lines [''a'', ''line 1049'', ''c'', ''d'', ''e'', ''f'', ''g'', ''line 1250'', ''i''])
     = [''a'', ''line 1049'', ''c'', ''d'', ''e'', ''f'', ''g'', ''line 1250'', ''i'']
   \<and> applyEdit
        (initialState
          (join_lines [''a'', ''line 1049'', ''c'', ''d'', ''e'', ''f'', ''g'', ''line 1250'', ''i'']))
        (delete_line ''5:e16717'')
     = Inr (rebuilt
             (initialState
               (join_lines [''a'', ''line 1049'', ''c'', ''d'', ''e'', ''f'', ''g'', ''line 1250'', ''i'']))
             [''a'', ''line 1049'', ''c'', ''d'', ''f'', ''g'', ''line 1250'', ''i''] 5 10)
   \<and> generateLineHash ''line 1250'' 8 = ''c03cf5''
   \<and> resolveLineHash \<lparr>lineNumber = 8, hash = ''c03cf5''\<rparr>
        [''a'', ''line 1049'', ''c'', ''d'', ''f'', ''g'', ''line 1250'', ''i'']
        (hashIndex
          (rebuilt
            (initialState
              (join_lines [''a'', ''line 1049'', ''c'', ''d'', ''e'', ''f'', ''g'', ''line 1250'', ''i'']))
            [''a'', ''line 1049'', ''c'', ''d'', ''f'', ''g'', ''line 1250'', ''i''] 5 10))
        {}
     = Inl (AmbiguousNearby 8 ''c03cf5'' [2, 7])
   \<and> resolveLineHash \<lparr>lineNumber = 8, hash = ''c03cf5''\<rparr>
        [''a'', ''line 1049'', ''c'', ''d'', ''f'', ''g'', ''line 1250'', ''i'']
        (hashIndex
          (rebuilt
            (initialState
              (join_lines [''a'', ''line 1049'', ''c'', ''d'', ''e'', ''f'', ''g'', ''line 1250'', ''i'']))
            [''a'', ''line 1049'', ''c'', ''d'', ''f'', ''g'', ''line 1250'', ''i''] 5 10))
        {}
     \<noteq> Inr 7"
proof -
  let ?ls = "[''a'', ''line 1049'', ''c'', ''d'', ''e'', ''f'', ''g'', ''line 1250'', ''i'']"
  have d: "distinct ?ls" by simp
  have sp: "split_lines (join_lines ?ls) = ?ls" by simp
  from collision_after_delete [OF sp] d sp fingerprint_line_1250 [of 8] show ?thesis
    by (intro conjI) simp_all
qed

text \<open>
  A file of exactly eight lines is outside the amended statement. There the entry of line 8
  survives the rebuild after the deletion, since the rebuild writes the entries of the seven
  remaining lines only; the reference to the original line 8 matches the stale entry exactly
  and resolves to line 8, one past the end of the buffer.
\<close>

lemma stale_entry_after_delete:
  assumes "split_lines buffer = ls"
    and "length ls = 8"
    and "parseLineHash lineHash = Some ref"
    and "resolveLineHash ref (lines (initialState buffer)) (hashIndex (initialState buffer))
           (modifiedLines (initialState buffer)) = Inr 5"
  shows "\<exists>st'. applyEdit (initialState buffer) (delete_line lineHash) = Inr st'
           \<and> length (lines st') = 7
           \<and> hashIndex st' 8 = Some (generateLineHash (ls ! 7) 8)
           \<and> resolveLineHash \<lparr>lineNumber = 8, hash = generateLineHash (ls ! 7) 8\<rparr>
                (lines st') (hashIndex st') (modifiedLines st') = Inr 8"
proof -
  let ?st0 = "initialState buffer"
  let ?ls' = "take 4 ls @ drop 5 ls"
  let ?st' = "rebuilt ?st0 ?ls' 5 10"
  have l0: "lines ?st0 = ls" using assms(1) by (simp add: initialState_def)
  have sp: "js_splice ls (5 - 1) 1 = ?ls'"
    using assms(2) by (simp add: js_splice_remove)
  have del: "applyEdit ?st0 (delete_line lineHash) = Inr ?st'"
    using assms(2,3,4) sp by (simp add: l0)
  have len': "length ?ls' = 7" using assms(2) by simp
  have "hashIndex ?st' 8 = hashIndex ?st0 8"
    by (simp only: hashIndex_rebuilt rebuildIndex_apply len') simp
  also have "\<dots> = Some (generateLineHash (ls ! 7) 8)"
    using assms(1,2) by (simp add: initialState_def rebuildIndex_apply)
  finally have ix: "hashIndex ?st' 8 = Some (generateLineHash (ls ! 7) 8)" .
  then have "resolveLineHash \<lparr>lineNumber = 8, hash = generateLineHash (ls ! 7) 8\<rparr>
               (lines ?st') (hashIndex ?st') (modifiedLines ?st') = Inr 8"
    by (simp add: resolveLineHash_def)
  with del ix len' show ?thesis by (intro exI [of _ ?st']) (simp add: lines_rebuilt)
qed

end
